theory Spec2Isabelle
  imports Main
begin

section \<open>The UDP table lowering pass of V3Udp.cpp\<close>

text \<open>
  The pass is the visitor class \<open>UdpVisitor\<close>. Its members become the fields of a
  record that every visit function takes and returns. The nodes of the tree the pass
  reads and builds are datatypes, one constructor for each node class the pass names.
  Reading past the end of a vector and dereferencing a null pointer are undefined in
  C++; here they are the results \<open>Inl OutOfRange\<close> and \<open>Inl NullPointer\<close>.
\<close>

subsection \<open>Nodes\<close>

datatype VAccess = READ | WRITE

datatype VSigning = NOSIGN | SIGNED | UNSIGNED

datatype VVarType = MODULETEMP | OTHERVARTYPE

text \<open>A data type node: a basic type with its \<open>isLogic()\<close> answer, width and signing,
  or a node of another data type class (for which \<open>VN_CAST(.., BasicDType)\<close> is null).\<close>

datatype AstNodeDType =
    AstBasicDType (isLogic: bool) (width: nat) (numeric: VSigning)
  | AstOtherDType

text \<open>A variable node: what the pass asks of it (\<open>isIO()\<close>, \<open>isInput()\<close>,
  \<open>childDTypep()\<close>) and what its constructor stores (type, name, \<open>dtypep\<close>).\<close>

record AstVar =
  varType :: VVarType
  name :: string
  isIO :: bool
  isInput :: bool
  childDTypep :: "AstNodeDType option"
  dtypep :: "AstNodeDType option"

text \<open>The bits a \<open>V3Number\<close> holds, least significant first. \<open>BX\<close> is the unknown value
  that \<open>setBit(.., 'x')\<close> stores.\<close>

datatype vbit = B0 | B1 | BX

type_synonym V3Number = "vbit list"

text \<open>Expressions the pass builds. A variable reference holds the pointer it was given,
  which may be null.\<close>

datatype AstNodeExpr =
    AstVarRef "AstVar option" VAccess
  | AstConcat AstNodeExpr AstNodeExpr
  | AstConst V3Number
  | AstAnd AstNodeExpr AstNodeExpr
  | AstEq AstNodeExpr AstNodeExpr

text \<open>Statements the pass builds. \<open>AstIf\<close> has a condition, the then statements and the
  else statements; \<open>AstAlways\<close> is built with keyword \<open>ALWAYS\<close> and no sensitivity
  list, so only its statements are kept.\<close>

datatype AstNodeStmt =
    AstAssignW AstNodeExpr AstNodeExpr
  | AstAlways "AstNodeStmt list"
  | AstIf AstNodeExpr "AstNodeStmt list" "AstNodeStmt list"
  | AstAssign AstNodeExpr AstNodeExpr

text \<open>The children of a table line's input and output field: value nodes carrying the
  symbol text as their name, or nodes of another class, which \<open>VN_CAST\<close> skips.\<close>

datatype AstFieldNode = AstUdpTableLineVal string | AstOtherField

record AstUdpTableLine =
  ifieldp :: "AstFieldNode list"
  ofieldp :: "AstFieldNode list"

text \<open>The statements of a primitive: variables, tables, synthesized statements, and
  nodes of any other class, which hold no variable or table.\<close>

datatype AstNode =
    Var AstVar
  | AstUdpTable "AstUdpTableLine list"
  | Stmt AstNodeStmt
  | AstOther

record AstPrimitive =
  prim_name :: string
  stmtsp :: "AstNode list"

subsection \<open>Diagnostics and undefined behaviour\<close>

text \<open>
  One constructor for each \<open>v3error\<close> call, with the node it is attached to and the
  numbers its message prints:
  \<^item> \<open>OutputPortsError v n\<close>: "n output ports for udp table, there must be one output port!"
  \<^item> \<open>FirstPortError v\<close>: "The first port must be the output port!"
  \<^item> \<open>SequentialError t\<close>: "sequetial UDP is not suppoted currently!"
  \<^item> \<open>InputValError l n k\<close>: "n input val required, while there are k input for the table line!"
\<close>

datatype v3error =
    OutputPortsError AstVar nat
  | FirstPortError AstVar
  | SequentialError AstNodeDType
  | InputValError AstUdpTableLine nat nat

datatype crash = OutOfRange | NullPointer

subsection \<open>The visitor's state\<close>

text \<open>
  \<open>m_alwaysp\<close> holds the statements of the process node it points to (\<open>None\<close> is the
  null pointer). \<open>m_lineStmtp\<close> points into that node: \<open>Some d\<close> is the conditional
  reached from the last statement of the process by following \<open>d\<close> times the last else
  statement. \<open>m_primp\<close> is the name of the primitive it points to. \<open>m_deleteps\<close> is the
  list \<open>pushDeletep\<close> appends to, and \<open>v3errors\<close> the diagnostics reported so far.
  \<open>m_inputNum\<close> and \<open>m_outputNum\<close> only ever hold the size of a vector, so they are
  natural numbers.
\<close>

record UdpVisitor =
  m_ifieldVarp :: "AstVar option"
  m_ofieldVarp :: "AstVar option"
  m_inputVars :: "AstVar list"
  m_outputVars :: "AstVar list"
  m_primp :: "string option"
  m_lineStmtp :: "nat option"
  m_alwaysp :: "AstNodeStmt list option"
  m_isFirstOutput :: bool
  m_inputNum :: nat
  m_outputNum :: nat
  m_deleteps :: "AstNode list"
  v3errors :: "v3error list"

text \<open>Modelled from the spec: the diagnostic sink, which is not in V3Udp.cpp. A diagnostic
  is recorded and processing continues.\<close>

definition v3error :: "v3error \<Rightarrow> UdpVisitor \<Rightarrow> UdpVisitor" where
  "v3error e st = st\<lparr>v3errors := v3errors st @ [e]\<rparr>"

subsection \<open>Port classifier: \<open>visit(AstVar*)\<close>\<close>

text \<open>The children of a variable hold no variable, table or primitive, so the closing
  \<open>iterateChildren(nodep)\<close> changes nothing.\<close>

definition visit_Var :: "UdpVisitor \<Rightarrow> AstVar \<Rightarrow> UdpVisitor" where
  "visit_Var st nodep =
     (if m_primp st \<noteq> None then
        (if isIO nodep then
           (let st1 = (if isInput nodep
                       then st\<lparr>m_inputVars := m_inputVars st @ [nodep]\<rparr>
                       else st\<lparr>m_outputVars := m_outputVars st @ [nodep]\<rparr>)
            in if length (m_inputVars st1) = 0 \<and> length (m_outputVars st1) = 1
               then st1\<lparr>m_isFirstOutput := True\<rparr>
               else st1)
         else st)
      else st)"

subsection \<open>Numbers\<close>

text \<open>Modelled from the spec: \<open>V3Number\<close> is a library type outside V3Udp.cpp. A number
  of a given width starts with every bit zero, and \<open>setBit\<close> stores one bit, doing
  nothing for a bit index at or past the width.\<close>

definition V3Number_new :: "nat \<Rightarrow> V3Number" where
  "V3Number_new w = replicate w B0"

definition setBit :: "V3Number \<Rightarrow> nat \<Rightarrow> vbit \<Rightarrow> V3Number" where
  "setBit num i v = (if i \<ge> length num then num else num[i := v])"

subsection \<open>Row compiler and chain builder: \<open>visit(AstUdpTableLine*)\<close>\<close>

text \<open>The two \<open>while\<close> loops that collect the nodes for which the cast to
  \<open>AstUdpTableLineVal\<close> succeeds; only the names of the nodes are read later.\<close>

fun lineVals :: "AstFieldNode list \<Rightarrow> string list" where
  "lineVals [] = []"
| "lineVals (AstUdpTableLineVal s # rest) = s # lineVals rest"
| "lineVals (AstOtherField # rest) = lineVals rest"

text \<open>The \<open>for\<close> loop over \<open>ifieldNodes\<close>, with \<open>bitIndex\<close>, \<open>maskNum\<close> and \<open>cmpNum\<close> as
  arguments. \<open>take 1\<close> is \<open>substr(0, 1)\<close>.\<close>

fun setBits :: "string list \<Rightarrow> nat \<Rightarrow> V3Number \<Rightarrow> V3Number \<Rightarrow> V3Number \<times> V3Number" where
  "setBits [] bitIndex maskNum cmpNum = (maskNum, cmpNum)"
| "setBits (ivalp # rest) bitIndex maskNum cmpNum =
     (let bitval = take 1 ivalp in
      if bitval = ''0'' then
        setBits rest (bitIndex + 1) (setBit maskNum bitIndex B1) (setBit cmpNum bitIndex B0)
      else if bitval = ''1'' then
        setBits rest (bitIndex + 1) (setBit maskNum bitIndex B1) (setBit cmpNum bitIndex B1)
      else
        setBits rest (bitIndex + 1) (setBit maskNum bitIndex B0) (setBit cmpNum bitIndex B0))"

definition maskNum_of :: "nat \<Rightarrow> string list \<Rightarrow> V3Number" where
  "maskNum_of n ifieldNodes = fst (setBits ifieldNodes 0 (V3Number_new n) (V3Number_new n))"

definition cmpNum_of :: "nat \<Rightarrow> string list \<Rightarrow> V3Number" where
  "cmpNum_of n ifieldNodes = snd (setBits ifieldNodes 0 (V3Number_new n) (V3Number_new n))"

text \<open>The output value \<open>onum\<close> built from the first character of the output symbol.\<close>

definition onum_of :: "string \<Rightarrow> V3Number" where
  "onum_of ovalp =
     (let bitval = take 1 ovalp in
      if bitval = ''0'' then setBit (V3Number_new 1) 0 B0
      else if bitval = ''1'' then setBit (V3Number_new 1) 0 B1
      else setBit (V3Number_new 1) 0 BX)"

text \<open>\<open>m_lineStmtp->addElsesp(newp)\<close>: the conditional \<open>m_lineStmtp\<close> points to is found
  from a statement list by taking its last statement and then \<open>d\<close> times the last else
  statement; \<open>newp\<close> is appended to the else statements of that conditional.\<close>

fun addElsesp :: "nat \<Rightarrow> AstNodeStmt \<Rightarrow> AstNodeStmt list \<Rightarrow> AstNodeStmt list" where
  "addElsesp d newp [] = []"
| "addElsesp d newp [AstIf c t e] =
     (case d of 0 \<Rightarrow> [AstIf c t (e @ [newp])] | Suc d' \<Rightarrow> [AstIf c t (addElsesp d' newp e)])"
| "addElsesp d newp [s] = [s]"
| "addElsesp d newp (s # s' # ss) = s # addElsesp d newp (s' # ss)"

text \<open>Lines 147 to 168: the condition of a line, from \<open>m_inputNum\<close>, \<open>m_ifieldVarp\<close>
  and the names of the input values. Lines 170 to 182: the assignment of a line, from
  \<open>m_ofieldVarp\<close> and the name of the first output value.\<close>

definition condExprp_of :: "nat \<Rightarrow> AstVar option \<Rightarrow> string list \<Rightarrow> AstNodeExpr" where
  "condExprp_of n ifieldVarp ifieldNodes =
     AstEq (AstAnd (AstConst (maskNum_of n ifieldNodes)) (AstVarRef ifieldVarp READ))
           (AstConst (cmpNum_of n ifieldNodes))"

definition thenStmtp_of :: "AstVar option \<Rightarrow> string \<Rightarrow> AstNodeStmt" where
  "thenStmtp_of ofieldVarp ovalp =
     AstAssign (AstVarRef ofieldVarp WRITE) (AstConst (onum_of ovalp))"

definition visit_UdpTableLine :: "UdpVisitor \<Rightarrow> AstUdpTableLine \<Rightarrow> crash + UdpVisitor" where
  "visit_UdpTableLine st nodep =
     (let ifieldNodes = lineVals (ifieldp nodep);
          ofieldNodes = lineVals (ofieldp nodep);
          st1 = (if length ifieldNodes \<noteq> m_inputNum st
                 then v3error (InputValError nodep (m_inputNum st) (length ifieldNodes)) st
                 else st);
          condExprp = condExprp_of (m_inputNum st) (m_ifieldVarp st) ifieldNodes
      in case ofieldNodes of
           [] \<Rightarrow> Inl OutOfRange
         | ovalp # _ \<Rightarrow>
             (let thenStmtp = thenStmtp_of (m_ofieldVarp st) ovalp;
                  ifStmtp = AstIf condExprp [thenStmtp] []
              in case m_lineStmtp st1 of
                   None \<Rightarrow>
                     (case m_alwaysp st1 of
                        None \<Rightarrow> Inl NullPointer
                      | Some stmts \<Rightarrow>
                          Inr (st1\<lparr>m_lineStmtp := Some 0, m_alwaysp := Some (stmts @ [ifStmtp])\<rparr>))
                 | Some d \<Rightarrow>
                     Inr (st1\<lparr>m_lineStmtp := Some (Suc d),
                              m_alwaysp := map_option (addElsesp d ifStmtp) (m_alwaysp st1)\<rparr>)))"

text \<open>\<open>iterateChildren\<close> of a table: its lines, in order.\<close>

fun iterateLines :: "UdpVisitor \<Rightarrow> AstUdpTableLine list \<Rightarrow> crash + UdpVisitor" where
  "iterateLines st [] = Inr st"
| "iterateLines st (l # ls) =
     (case visit_UdpTableLine st l of Inl e \<Rightarrow> Inl e | Inr st' \<Rightarrow> iterateLines st' ls)"

subsection \<open>Table validator and field synthesizer: \<open>visit(AstUdpTable*)\<close>\<close>

text \<open>Modelled from the spec: the tree primitives, which are not in V3Udp.cpp.
  The constructor of a variable from a type, a name and a data type gives a variable that
  is no port; \<open>findBitDType\<close> gives the bit type of a width; \<open>t->addNextHere(newp)\<close>
  links \<open>newp\<close> into the sibling list right after \<open>t\<close>. The source names \<open>t\<close> by
  pointer, the model by the node itself, which is the same node when the list holds it
  once.\<close>

definition AstVar_new :: "VVarType \<Rightarrow> string \<Rightarrow> AstNodeDType \<Rightarrow> AstVar" where
  "AstVar_new t nm dt = \<lparr>varType = t, name = nm, isIO = False, isInput = False,
                          childDTypep = None, dtypep = Some dt\<rparr>"

definition findBitDType :: "nat \<Rightarrow> nat \<Rightarrow> VSigning \<Rightarrow> AstNodeDType" where
  "findBitDType w wmin signing = AstBasicDType False w signing"

fun addNextHere :: "AstNode \<Rightarrow> AstNode \<Rightarrow> AstNode list \<Rightarrow> AstNode list" where
  "addNextHere t newp [] = []"
| "addNextHere t newp (n # ns) =
     (if n = t then n # newp # ns else n # addNextHere t newp ns)"

text \<open>The \<open>while\<close> loop that builds the concatenation, with \<open>contactp\<close> as accumulator.\<close>

fun contactp_loop :: "AstVar list \<Rightarrow> AstNodeExpr \<Rightarrow> AstNodeExpr" where
  "contactp_loop [] contactp = contactp"
| "contactp_loop (v # vs) contactp =
     contactp_loop vs (AstConcat (AstVarRef (Some v) READ) contactp)"

text \<open>Lines 82 to 97, the first part of \<open>visit(AstUdpTable*)\<close>: the three checks.
  \<open>back()\<close> and \<open>[0]\<close> on an empty vector are undefined.\<close>

definition validate :: "UdpVisitor \<Rightarrow> crash + UdpVisitor" where
  "validate st0 =
     (let st = st0\<lparr>m_lineStmtp := None,
                   m_inputNum := length (m_inputVars st0),
                   m_outputNum := length (m_outputVars st0)\<rparr>
      in if m_outputNum st \<noteq> 1 \<and> m_outputVars st = [] then Inl OutOfRange
         else
           (let st1 = (if m_outputNum st \<noteq> 1
                       then v3error (OutputPortsError (last (m_outputVars st)) (m_outputNum st)) st
                       else st)
            in if \<not> m_isFirstOutput st1 \<and> m_outputNum st1 \<noteq> 0 \<and> m_inputVars st1 = []
               then Inl OutOfRange
               else
                 (let st2 = (if \<not> m_isFirstOutput st1 \<and> m_outputNum st1 \<noteq> 0
                             then v3error (FirstPortError (hd (m_inputVars st1))) st1
                             else st1)
                  in case m_outputVars st2 of
                       [] \<Rightarrow> Inl OutOfRange
                     | ofield # _ \<Rightarrow>
                         (let st3 = st2\<lparr>m_ofieldVarp := Some ofield\<rparr>
                          in case childDTypep ofield of
                               Some (AstBasicDType True w sg) \<Rightarrow>
                                 Inr (v3error (SequentialError (AstBasicDType True w sg)) st3)
                             | _ \<Rightarrow> Inr st3))))"

text \<open>The whole visit: the checks, then lines 100 to 117. The second argument is the list of siblings linked before the
  table; the result holds that list with the new variable linked in and the table replaced
  by the field assignment and the process. The process node is linked after the field
  assignment before the lines are visited and is filled through \<open>m_alwaysp\<close>, so its
  statements are read from there when the two nodes take the table's place.\<close>

definition visit_UdpTable ::
  "UdpVisitor \<Rightarrow> AstNode list \<Rightarrow> AstUdpTableLine list \<Rightarrow> crash + (UdpVisitor \<times> AstNode list)" where
  "visit_UdpTable st0 prevs lines =
     (case validate st0 of
        Inl e \<Rightarrow> Inl e
      | Inr st \<Rightarrow>
          (let typep = findBitDType (m_inputNum st) (m_inputNum st) NOSIGN;
               ifieldVar = AstVar_new MODULETEMP ''tableline__ifield__udptmp'' typep;
               st1 = st\<lparr>m_ifieldVarp := Some ifieldVar\<rparr>
           in case m_inputVars st1 of
                [] \<Rightarrow> Inl OutOfRange
              | v # vs \<Rightarrow>
                  (let prevs1 = addNextHere (Var (last (m_inputVars st1))) (Var ifieldVar) prevs;
                       ifieldRefp = AstVarRef (m_ifieldVarp st1) WRITE;
                       contactp = contactp_loop vs (AstVarRef (Some v) READ);
                       ifieldStmtp = AstAssignW ifieldRefp contactp;
                       st2 = st1\<lparr>m_alwaysp := Some []\<rparr>
                   in case iterateLines st2 lines of
                        Inl e \<Rightarrow> Inl e
                      | Inr st3 \<Rightarrow>
                          (case m_alwaysp st3 of
                             None \<Rightarrow> Inl NullPointer
                           | Some stmts \<Rightarrow>
                               Inr (st3\<lparr>m_deleteps := m_deleteps st3 @ [AstUdpTable lines]\<rparr>,
                                    prevs1 @ [Stmt ifieldStmtp, Stmt (AstAlways stmts)])))))"

subsection \<open>\<open>visit(AstPrimitive*)\<close> and the traversal of its statements\<close>

text \<open>\<open>iterateChildren\<close> of a primitive. The second argument is the part of the statement
  list already visited. Statements and other nodes go to \<open>visit(AstNode*)\<close>, which changes
  neither the state nor the tree, as they hold no variable, table or primitive.\<close>

fun iterateChildren ::
  "UdpVisitor \<Rightarrow> AstNode list \<Rightarrow> AstNode list \<Rightarrow> crash + (UdpVisitor \<times> AstNode list)" where
  "iterateChildren st prevs [] = Inr (st, prevs)"
| "iterateChildren st prevs (Var v # rest) =
     iterateChildren (visit_Var st v) (prevs @ [Var v]) rest"
| "iterateChildren st prevs (AstUdpTable lines # rest) =
     (case visit_UdpTable st prevs lines of
        Inl e \<Rightarrow> Inl e
      | Inr (st', prevs') \<Rightarrow> iterateChildren st' prevs' rest)"
| "iterateChildren st prevs (Stmt s # rest) = iterateChildren st (prevs @ [Stmt s]) rest"
| "iterateChildren st prevs (AstOther # rest) = iterateChildren st (prevs @ [AstOther]) rest"

definition visit_Primitive ::
  "UdpVisitor \<Rightarrow> AstPrimitive \<Rightarrow> crash + (UdpVisitor \<times> AstPrimitive)" where
  "visit_Primitive st nodep =
     (let st1 = st\<lparr>m_primp := Some (prim_name nodep), m_isFirstOutput := False,
                   m_inputVars := [], m_outputVars := []\<rparr>
      in case iterateChildren st1 [] (stmtsp nodep) of
           Inl e \<Rightarrow> Inl e
         | Inr (st2, stmts) \<Rightarrow> Inr (st2\<lparr>m_primp := None\<rparr>, nodep\<lparr>stmtsp := stmts\<rparr>))"

text \<open>The state a new visitor starts in: the member initialisers of the class.\<close>

definition UdpVisitor_new :: UdpVisitor where
  "UdpVisitor_new =
     \<lparr>m_ifieldVarp = None, m_ofieldVarp = None, m_inputVars = [], m_outputVars = [],
      m_primp = None, m_lineStmtp = None, m_alwaysp = None, m_isFirstOutput = False,
      m_inputNum = 0, m_outputNum = 0, m_deleteps = [], v3errors = []\<rparr>"

subsection \<open>Notions the properties are stated with\<close>

text \<open>The variables among the statements of a primitive, in declaration order.\<close>

fun varsOf :: "AstNode list \<Rightarrow> AstVar list" where
  "varsOf [] = []"
| "varsOf (Var v # rest) = v # varsOf rest"
| "varsOf (n # rest) = varsOf rest"

definition inputPorts :: "AstNode list \<Rightarrow> AstVar list" where
  "inputPorts nodes = filter (\<lambda>v. isIO v \<and> isInput v) (varsOf nodes)"

definition outputPorts :: "AstNode list \<Rightarrow> AstVar list" where
  "outputPorts nodes = filter (\<lambda>v. isIO v \<and> \<not> isInput v) (varsOf nodes)"

text \<open>Whether the first port among the variables is an output.\<close>

definition firstIsOutput :: "AstNode list \<Rightarrow> bool" where
  "firstIsOutput nodes =
     (case filter isIO (varsOf nodes) of [] \<Rightarrow> False | v # _ \<Rightarrow> \<not> isInput v)"

definition noTable :: "AstNode list \<Rightarrow> bool" where
  "noTable nodes = list_all (\<lambda>n. case n of AstUdpTable _ \<Rightarrow> False | _ \<Rightarrow> True) nodes"

subsection \<open>Meaning of the synthesized nodes\<close>

text \<open>
  V3Udp.cpp builds nodes; what they compute is fixed by the language. The value of an
  expression is its list of bits, least significant first, for given values of the
  variables: a concatenation has its right operand in the low bits, a constant bit counts
  as set when it is 1, a conjunction works bit by bit on operands of one width (the pass
  builds no other), and an equality gives one bit. A conditional runs its then
  statements when its condition has a bit set and its else statements otherwise. A run
  of a statement gives the assignments it performs, as pairs of target and source.
\<close>

fun exprBits :: "(AstVar \<Rightarrow> bool list) \<Rightarrow> AstNodeExpr \<Rightarrow> bool list" where
  "exprBits env (AstVarRef vp a) = (case vp of None \<Rightarrow> [] | Some v \<Rightarrow> env v)"
| "exprBits env (AstConcat l r) = exprBits env r @ exprBits env l"
| "exprBits env (AstConst k) = map (\<lambda>b. b = B1) k"
| "exprBits env (AstAnd l r) = map2 (\<and>) (exprBits env l) (exprBits env r)"
| "exprBits env (AstEq l r) = [exprBits env l = exprBits env r]"

fun assigns :: "(AstVar \<Rightarrow> bool list) \<Rightarrow> AstNodeStmt \<Rightarrow> (AstNodeExpr \<times> AstNodeExpr) list" where
  "assigns env (AstAssignW l r) = [(l, r)]"
| "assigns env (AstAssign l r) = [(l, r)]"
| "assigns env (AstAlways ss) = concat (map (assigns env) ss)"
| "assigns env (AstIf c t e) =
     (if True \<in> set (exprBits env c) then concat (map (assigns env) t)
      else concat (map (assigns env) e))"

text \<open>A table symbol accepts a bit: \<open>0\<close> accepts 0, \<open>1\<close> accepts 1, any other symbol
  accepts both. A field value matches a line when each input symbol of the line accepts
  the field bit of the same index.\<close>

definition symbolAccepts :: "string \<Rightarrow> bool \<Rightarrow> bool" where
  "symbolAccepts s b =
     (if take 1 s = ''0'' then \<not> b else if take 1 s = ''1'' then b else True)"

definition rowMatches :: "bool list \<Rightarrow> AstUdpTableLine \<Rightarrow> bool" where
  "rowMatches field l =
     list_all (\<lambda>(s, b). symbolAccepts s b) (zip (lineVals (ifieldp l)) field)"

text \<open>A chain of conditionals: the first is the only statement, each further one the
  only else statement of the one before, and the last has no else statement.\<close>

fun elseChain :: "(AstNodeExpr \<times> AstNodeStmt) list \<Rightarrow> AstNodeStmt list" where
  "elseChain [] = []"
| "elseChain ((c, s) # rest) = [AstIf c [s] (elseChain rest)]"

text \<open>The condition and the assignment of a line, and the diagnostics of the lines whose
  number of input values is not \<open>n\<close>.\<close>

definition lineIf ::
  "nat \<Rightarrow> AstVar option \<Rightarrow> AstVar option \<Rightarrow> AstUdpTableLine \<Rightarrow> AstNodeExpr \<times> AstNodeStmt" where
  "lineIf n ifieldVarp ofieldVarp l =
     (condExprp_of n ifieldVarp (lineVals (ifieldp l)),
      thenStmtp_of ofieldVarp (hd (lineVals (ofieldp l))))"

definition lineErrors :: "nat \<Rightarrow> AstUdpTableLine list \<Rightarrow> v3error list" where
  "lineErrors n ls =
     map (\<lambda>l. InputValError l n (length (lineVals (ifieldp l))))
         (filter (\<lambda>l. length (lineVals (ifieldp l)) \<noteq> n) ls)"

text \<open>The diagnostics of the three checks on a table, the variable made for the input
  field of \<open>n\<close> inputs, and the concatenation built from a list of input ports.\<close>

definition validateErrors :: "UdpVisitor \<Rightarrow> v3error list" where
  "validateErrors st =
     (if length (m_outputVars st) \<noteq> 1
      then [OutputPortsError (last (m_outputVars st)) (length (m_outputVars st))] else []) @
     (if \<not> m_isFirstOutput st \<and> m_outputVars st \<noteq> []
      then [FirstPortError (hd (m_inputVars st))] else []) @
     (case childDTypep (hd (m_outputVars st)) of
        Some (AstBasicDType True w sg) \<Rightarrow> [SequentialError (AstBasicDType True w sg)]
      | _ \<Rightarrow> [])"

definition ifieldVar_of :: "nat \<Rightarrow> AstVar" where
  "ifieldVar_of n = AstVar_new MODULETEMP ''tableline__ifield__udptmp'' (findBitDType n n NOSIGN)"

definition contactp_of :: "AstVar list \<Rightarrow> AstNodeExpr" where
  "contactp_of ins = contactp_loop (tl ins) (AstVarRef (Some (hd ins)) READ)"

text \<open>What a table visit is to synthesize from the state it starts in: the field
  variable, the field assignment, and the process with the chain of the lines.\<close>

definition ifieldVar_at :: "UdpVisitor \<Rightarrow> AstVar" where
  "ifieldVar_at st = ifieldVar_of (length (m_inputVars st))"

definition ifieldStmtp_of :: "UdpVisitor \<Rightarrow> AstNodeStmt" where
  "ifieldStmtp_of st =
     AstAssignW (AstVarRef (Some (ifieldVar_at st)) WRITE) (contactp_of (m_inputVars st))"

definition process_of :: "UdpVisitor \<Rightarrow> AstUdpTableLine list \<Rightarrow> AstNodeStmt" where
  "process_of st lines =
     AstAlways (elseChain (map (lineIf (length (m_inputVars st)) (Some (ifieldVar_at st))
                                       (Some (hd (m_outputVars st)))) lines))"

text \<open>The diagnostics reported between two states.\<close>

definition newErrors :: "UdpVisitor \<Rightarrow> UdpVisitor \<Rightarrow> v3error list" where
  "newErrors st st' = drop (length (v3errors st)) (v3errors st')"

fun isSequentialError :: "v3error \<Rightarrow> bool" where
  "isSequentialError (SequentialError t) = True"
| "isSequentialError e = False"

text \<open>A port is logic-valued when its type is a basic type that answers \<open>isLogic()\<close>.\<close>

definition isLogicValued :: "AstVar \<Rightarrow> bool" where
  "isLogicValued v =
     (case childDTypep v of Some (AstBasicDType lg w sg) \<Rightarrow> lg | _ \<Rightarrow> False)"

subsection \<open>Example primitive\<close>

text \<open>The primitive of the specification's example: output \<open>q\<close> declared first, inputs
  \<open>a\<close> and \<open>b\<close>, all one bit wide and not logic-valued.\<close>

definition port :: "string \<Rightarrow> bool \<Rightarrow> AstNodeDType \<Rightarrow> AstVar" where
  "port nm inp t = \<lparr>varType = OTHERVARTYPE, name = nm, isIO = True, isInput = inp,
                    childDTypep = Some t, dtypep = None\<rparr>"

definition ex_q :: AstVar where "ex_q = port ''q'' False (AstBasicDType False 1 NOSIGN)"
definition ex_a :: AstVar where "ex_a = port ''a'' True (AstBasicDType False 1 NOSIGN)"
definition ex_b :: AstVar where "ex_b = port ''b'' True (AstBasicDType False 1 NOSIGN)"

definition ex_ports :: AstPrimitive where
  "ex_ports = \<lparr>prim_name = ''p'', stmtsp = [Var ex_q, Var ex_a, AstOther, Var ex_b]\<rparr>"

text \<open>The table of the example, \<open>0 1 : 1\<close>, \<open>1 0 : 1\<close>, \<open>? ? : 0\<close>, the state in which
  the visitor reaches it, and the primitive that holds it.\<close>

definition tableLine :: "string list \<Rightarrow> string \<Rightarrow> AstUdpTableLine" where
  "tableLine ins out = \<lparr>ifieldp = map AstUdpTableLineVal ins, ofieldp = [AstUdpTableLineVal out]\<rparr>"

definition ex_lines :: "AstUdpTableLine list" where
  "ex_lines = [tableLine [''0'', ''1''] ''1'', tableLine [''1'', ''0''] ''1'',
               tableLine [''?'', ''?''] ''0'']"

definition ex_state :: UdpVisitor where
  "ex_state = UdpVisitor_new\<lparr>m_primp := Some ''p'', m_inputVars := [ex_a, ex_b],
                             m_outputVars := [ex_q], m_isFirstOutput := True\<rparr>"

definition ex_udp :: AstPrimitive where
  "ex_udp = \<lparr>prim_name = ''p'',
             stmtsp = [Var ex_q, Var ex_a, Var ex_b, AstUdpTable ex_lines]\<rparr>"

text \<open>Values of the variables with \<open>a = 0\<close> and \<open>b = 1\<close>, so the field is \<open>10\<close>.\<close>

definition ex_env :: "AstVar \<Rightarrow> bool list" where
  "ex_env v = (if v = ex_a then [False] else if v = ex_b then [True]
               else if v = ifieldVar_of 2 then [False, True] else [])"

text \<open>A primitive with one input, no output and a table of one line.\<close>

definition ex_noOutput :: AstPrimitive where
  "ex_noOutput = \<lparr>prim_name = ''p'',
                  stmtsp = [Var ex_a, AstUdpTable [tableLine [''0''] ''1'']]\<rparr>"

text \<open>The same with a logic-valued output declared first.\<close>

definition ex_r :: AstVar where "ex_r = port ''r'' False (AstBasicDType True 1 NOSIGN)"

text \<open>The state in which the lines of the example table are visited.\<close>

definition ex_row_state :: UdpVisitor where
  "ex_row_state = ex_state\<lparr>m_inputNum := 2, m_outputNum := 1,
                            m_ifieldVarp := Some (ifieldVar_of 2), m_ofieldVarp := Some ex_q,
                            m_alwaysp := Some []\<rparr>"

section \<open>Properties\<close>

subsection \<open>What the visits leave unchanged\<close>

lemma visit_Var_eq:
  "m_primp st \<noteq> None \<Longrightarrow> visit_Var st v =
     st\<lparr>m_inputVars := m_inputVars st @ (if isIO v \<and> isInput v then [v] else []),
        m_outputVars := m_outputVars st @ (if isIO v \<and> \<not> isInput v then [v] else []),
        m_isFirstOutput := (m_isFirstOutput st \<or>
            (isIO v \<and> \<not> isInput v \<and> m_inputVars st = [] \<and> m_outputVars st = []))\<rparr>"
  by (auto simp: visit_Var_def Let_def)

lemma visit_UdpTableLine_keeps:
  "visit_UdpTableLine st l = Inr st' \<Longrightarrow>
     m_inputVars st' = m_inputVars st \<and> m_outputVars st' = m_outputVars st \<and>
     m_isFirstOutput st' = m_isFirstOutput st \<and> m_primp st' = m_primp st"
  by (auto simp: visit_UdpTableLine_def Let_def v3error_def
           split: list.splits option.splits if_splits)

lemma iterateLines_keeps:
  "iterateLines st ls = Inr st' \<Longrightarrow>
     m_inputVars st' = m_inputVars st \<and> m_outputVars st' = m_outputVars st \<and>
     m_isFirstOutput st' = m_isFirstOutput st \<and> m_primp st' = m_primp st"
proof (induction ls arbitrary: st)
  case Nil
  then show ?case by simp
next
  case (Cons l ls)
  then obtain st1 where 1: "visit_UdpTableLine st l = Inr st1"
    and 2: "iterateLines st1 ls = Inr st'"
    by (auto split: sum.splits)
  from visit_UdpTableLine_keeps[OF 1] Cons.IH[OF 2] show ?case by simp
qed

lemma validate_keeps:
  "validate st = Inr st' \<Longrightarrow>
     m_inputVars st' = m_inputVars st \<and> m_outputVars st' = m_outputVars st \<and>
     m_isFirstOutput st' = m_isFirstOutput st \<and> m_primp st' = m_primp st"
  by (auto simp: validate_def Let_def v3error_def
           split: list.splits option.splits if_splits AstNodeDType.splits bool.splits)

lemma visit_UdpTable_keeps:
  "visit_UdpTable st prevs ls = Inr (st', prevs') \<Longrightarrow>
     m_inputVars st' = m_inputVars st \<and> m_outputVars st' = m_outputVars st \<and>
     m_isFirstOutput st' = m_isFirstOutput st \<and> m_primp st' = m_primp st"
  unfolding visit_UdpTable_def
  by (auto simp: Let_def split: sum.splits list.splits option.splits
           dest!: validate_keeps iterateLines_keeps)

subsection \<open>Port classifier\<close>

lemma iterateChildren_classify:
  "iterateChildren st prevs nodes = Inr (st', out) \<Longrightarrow> m_primp st \<noteq> None \<Longrightarrow>
     m_primp st' = m_primp st \<and>
     m_inputVars st' = m_inputVars st @ inputPorts nodes \<and>
     m_outputVars st' = m_outputVars st @ outputPorts nodes \<and>
     m_isFirstOutput st' = (m_isFirstOutput st \<or>
        (m_inputVars st = [] \<and> m_outputVars st = [] \<and> firstIsOutput nodes))"
proof (induction st prevs nodes rule: iterateChildren.induct)
  case (1 st prevs)
  then show ?case by (simp add: firstIsOutput_def inputPorts_def outputPorts_def)
next
  case (2 st prevs v rest)
  have p: "m_primp (visit_Var st v) \<noteq> None" using 2(3) by (simp add: visit_Var_eq)
  from 2(1)[OF _ p] 2(2) 2(3) show ?case
    by (auto simp: visit_Var_eq firstIsOutput_def inputPorts_def outputPorts_def)
next
  case (3 st prevs lines rest)
  then obtain st1 p1 where a: "visit_UdpTable st prevs lines = Inr (st1, p1)"
    and b: "iterateChildren st1 p1 rest = Inr (st', out)"
    by (auto split: sum.splits)
  note k = visit_UdpTable_keeps[OF a]
  have p: "m_primp st1 \<noteq> None" using k 3(3) by simp
  from 3(1)[OF a refl b p] k show ?case
    by (simp add: firstIsOutput_def inputPorts_def outputPorts_def)
next
  case (4 st prevs s rest)
  then show ?case by (simp add: firstIsOutput_def inputPorts_def outputPorts_def)
next
  case (5 st prevs rest)
  then show ?case by (simp add: firstIsOutput_def inputPorts_def outputPorts_def)
qed

lemma iterateChildren_noTable:
  "noTable nodes \<Longrightarrow> m_primp st \<noteq> None \<Longrightarrow>
   iterateChildren st prevs nodes =
     Inr (st\<lparr>m_inputVars := m_inputVars st @ inputPorts nodes,
             m_outputVars := m_outputVars st @ outputPorts nodes,
             m_isFirstOutput := (m_isFirstOutput st \<or>
                (m_inputVars st = [] \<and> m_outputVars st = [] \<and> firstIsOutput nodes))\<rparr>,
          prevs @ nodes)"
proof (induction st prevs nodes rule: iterateChildren.induct)
  case (1 st prevs)
  then show ?case by (simp add: firstIsOutput_def inputPorts_def outputPorts_def)
next
  case (2 st prevs v rest)
  have p: "m_primp (visit_Var st v) \<noteq> None" using 2(3) by (simp add: visit_Var_eq)
  have n: "noTable rest" using 2(2) by (simp add: noTable_def)
  show ?case
    unfolding iterateChildren.simps 2(1)[OF n p] using 2(3)
    by (auto simp: visit_Var_eq firstIsOutput_def inputPorts_def outputPorts_def)
next
  case (3 st prevs lines rest)
  then show ?case by (simp add: noTable_def)
next
  case (4 st prevs s rest)
  then show ?case by (simp add: firstIsOutput_def noTable_def inputPorts_def outputPorts_def)
next
  case (5 st prevs rest)
  then show ?case by (simp add: firstIsOutput_def noTable_def inputPorts_def outputPorts_def)
qed

text \<open>
  Claim C7. After the visit of a primitive, the input list and the output list hold the
  primitive's input ports and its other ports in declaration order, variables that are
  no port are in neither, and the flag says whether the first port is an output. For a
  primitive without a table nothing else changes: the tree is the same and so is every
  other member (\<open>m_primp\<close> is null again, as the visit leaves it).
\<close>

theorem port_classifier:
  "(visit_Primitive st p = Inr (st', p') \<longrightarrow>
      m_inputVars st' = inputPorts (stmtsp p) \<and>
      m_outputVars st' = outputPorts (stmtsp p) \<and>
      m_isFirstOutput st' = firstIsOutput (stmtsp p)) \<and>
   (noTable (stmtsp p) \<longrightarrow>
      visit_Primitive st p =
        Inr (st\<lparr>m_inputVars := inputPorts (stmtsp p),
                m_outputVars := outputPorts (stmtsp p),
                m_primp := None,
                m_isFirstOutput := firstIsOutput (stmtsp p)\<rparr>, p))"
proof (intro conjI impI)
  let ?st1 = "st\<lparr>m_primp := Some (prim_name p), m_isFirstOutput := False,
                 m_inputVars := [], m_outputVars := []\<rparr>"
  have p1: "m_primp ?st1 \<noteq> None" by simp
  {
    assume r: "visit_Primitive st p = Inr (st', p')"
    then obtain st2 stmts where i: "iterateChildren ?st1 [] (stmtsp p) = Inr (st2, stmts)"
      and e: "st' = st2\<lparr>m_primp := None\<rparr>"
      by (auto simp: visit_Primitive_def Let_def split: sum.splits)
    from iterateChildren_classify[OF i p1] e
    show "m_inputVars st' = inputPorts (stmtsp p)"
      and "m_outputVars st' = outputPorts (stmtsp p)"
      and "m_isFirstOutput st' = firstIsOutput (stmtsp p)"
      by simp_all
  }
  assume n: "noTable (stmtsp p)"
  show "visit_Primitive st p =
        Inr (st\<lparr>m_inputVars := inputPorts (stmtsp p),
                m_outputVars := outputPorts (stmtsp p),
                m_primp := None,
                m_isFirstOutput := firstIsOutput (stmtsp p)\<rparr>, p)"
    by (simp add: visit_Primitive_def Let_def iterateChildren_noTable[OF n p1])
qed

theorem port_classifier_witness:
  "noTable (stmtsp ex_ports) \<and>
   visit_Primitive UdpVisitor_new ex_ports =
     Inr (UdpVisitor_new\<lparr>m_inputVars := [ex_a, ex_b], m_outputVars := [ex_q],
                          m_isFirstOutput := True\<rparr>, ex_ports) \<and>
   inputPorts (stmtsp ex_ports) = [ex_a, ex_b] \<and>
   outputPorts (stmtsp ex_ports) = [ex_q] \<and>
   firstIsOutput (stmtsp ex_ports)"
  using port_classifier [where st = UdpVisitor_new and p = ex_ports and p' = ex_ports
          and st' = "UdpVisitor_new\<lparr>m_inputVars := [ex_a, ex_b], m_outputVars := [ex_q],
                          m_isFirstOutput := True\<rparr>"]
  by (simp add: noTable_def ex_ports_def firstIsOutput_def inputPorts_def outputPorts_def
        ex_a_def ex_b_def ex_q_def port_def UdpVisitor_new_def)

text \<open>
  Claim C10. In a primitive, after any part of its statements has been visited (so at
  each of its tables, and at its end): when an output port has been classified and the
  flag is false, the input list is not empty, so \<open>m_inputVars[0]\<close> in the placement
  branch reads an element that is there.
\<close>

theorem placement_branch_in_bounds:
  assumes "iterateChildren (st\<lparr>m_primp := Some nm, m_isFirstOutput := False,
                               m_inputVars := [], m_outputVars := []\<rparr>) [] nodes
             = Inr (st', out)"
    and "m_outputVars st' \<noteq> []" and "\<not> m_isFirstOutput st'"
  shows "m_inputVars st' \<noteq> []"
proof -
  have c: "m_inputVars st' = inputPorts nodes" "m_outputVars st' = outputPorts nodes"
     "m_isFirstOutput st' = firstIsOutput nodes"
    using iterateChildren_classify[OF assms(1)] by simp_all
  from assms(2) c(2) have "filter isIO (varsOf nodes) \<noteq> []"
    by (auto simp: outputPorts_def filter_empty_conv)
  then obtain v vs where vs: "filter isIO (varsOf nodes) = v # vs"
    by (cases "filter isIO (varsOf nodes)") auto
  with assms(3) c(3) have "isInput v" by (simp add: firstIsOutput_def)
  moreover have "v \<in> set (filter isIO (varsOf nodes))" using vs by simp
  ultimately have "v \<in> set (inputPorts nodes)" by (simp add: inputPorts_def)
  with c(1) show ?thesis by auto
qed

theorem placement_branch_in_bounds_witness:
  "iterateChildren (UdpVisitor_new\<lparr>m_primp := Some ''p'', m_isFirstOutput := False,
        m_inputVars := [], m_outputVars := []\<rparr>) [] [Var ex_a, Var ex_q] =
     Inr (UdpVisitor_new\<lparr>m_primp := Some ''p'', m_inputVars := [ex_a],
                          m_outputVars := [ex_q]\<rparr>, [Var ex_a, Var ex_q]) \<and>
   m_outputVars (UdpVisitor_new\<lparr>m_primp := Some ''p'', m_inputVars := [ex_a],
                                 m_outputVars := [ex_q]\<rparr>) \<noteq> [] \<and>
   \<not> m_isFirstOutput (UdpVisitor_new\<lparr>m_primp := Some ''p'', m_inputVars := [ex_a],
                                      m_outputVars := [ex_q]\<rparr>) \<and>
   m_inputVars (UdpVisitor_new\<lparr>m_primp := Some ''p'', m_inputVars := [ex_a],
                                m_outputVars := [ex_q]\<rparr>) \<noteq> []"
  using placement_branch_in_bounds [where st = UdpVisitor_new and nm = "''p''"
     and nodes = "[Var ex_a, Var ex_q]" and out = "[Var ex_a, Var ex_q]"
     and st' = "UdpVisitor_new\<lparr>m_primp := Some ''p'', m_inputVars := [ex_a],
                                 m_outputVars := [ex_q]\<rparr>"]
  by (simp add: visit_Var_def UdpVisitor_new_def ex_a_def ex_q_def port_def)

subsection \<open>Mask and compare numbers\<close>

lemma setBit_length: "length (setBit num i v) = length num"
  by (simp add: setBit_def)

lemma setBit_nth: "j < length num \<Longrightarrow> setBit num i v ! j = (if j = i then v else num ! j)"
  by (simp add: setBit_def)

lemma setBits_length:
  "length (fst (setBits syms k M C)) = length M \<and> length (snd (setBits syms k M C)) = length C"
  by (induction syms k M C rule: setBits.induct) (simp_all add: Let_def setBit_length)

lemma setBits_nth:
  "i < length M \<Longrightarrow> length C = length M \<Longrightarrow>
   fst (setBits syms k M C) ! i =
     (if k \<le> i \<and> i < k + length syms
      then (if take 1 (syms ! (i - k)) = ''0'' \<or> take 1 (syms ! (i - k)) = ''1'' then B1 else B0)
      else M ! i) \<and>
   snd (setBits syms k M C) ! i =
     (if k \<le> i \<and> i < k + length syms
      then (if take 1 (syms ! (i - k)) = ''1'' then B1 else B0)
      else C ! i)"
proof (induction syms k M C rule: setBits.induct)
  case (1 bitIndex maskNum cmpNum)
  then show ?case by auto
next
  case (2 ivalp rest bitIndex maskNum cmpNum)
  show ?case
  proof (cases "i = bitIndex")
    case True
    with 2 show ?thesis by (simp add: Let_def setBit_length setBit_nth)
  next
    case False
    with 2 show ?thesis
      by (auto simp add: Let_def setBit_length setBit_nth nth_Cons')
  qed
qed

lemma mask_cmp_length:
  "length (maskNum_of n syms) = n" "length (cmpNum_of n syms) = n"
  by (simp_all add: maskNum_of_def cmpNum_of_def setBits_length V3Number_new_def)

lemma mask_cmp_nth:
  assumes "i < n"
  shows "maskNum_of n syms ! i =
           (if i < length syms \<and> (take 1 (syms ! i) = ''0'' \<or> take 1 (syms ! i) = ''1'')
            then B1 else B0)"
    and "cmpNum_of n syms ! i =
           (if i < length syms \<and> take 1 (syms ! i) = ''1'' then B1 else B0)"
  using assms setBits_nth[of i "V3Number_new n" "V3Number_new n" syms 0]
  by (simp_all add: maskNum_of_def cmpNum_of_def V3Number_new_def)

subsection \<open>Conditions and chains\<close>

lemma cond_matches:
  assumes len: "length (env iv) = n"
  shows "(True \<in> set (exprBits env (condExprp_of n (Some iv) syms))) =
         list_all (\<lambda>(s, b). symbolAccepts s b) (zip syms (env iv))"
proof -
  let ?f = "env iv"
  let ?M = "maskNum_of n syms" and ?C = "cmpNum_of n syms"
  have lhs: "(True \<in> set (exprBits env (condExprp_of n (Some iv) syms))) =
        (map2 (\<and>) (map (\<lambda>b. b = B1) ?M) ?f = map (\<lambda>b. b = B1) ?C)"
    by (simp add: condExprp_of_def)
  have eq: "(map2 (\<and>) (map (\<lambda>b. b = B1) ?M) ?f = map (\<lambda>b. b = B1) ?C) =
        (\<forall>i<n. ((?M ! i = B1) \<and> ?f ! i) = (?C ! i = B1))"
    by (simp add: list_eq_iff_nth_eq mask_cmp_length len)
  have pt: "((?M ! i = B1) \<and> ?f ! i) = (?C ! i = B1) \<longleftrightarrow>
            (i < length syms \<longrightarrow> symbolAccepts (syms ! i) (?f ! i))" if "i < n" for i
    using that by (auto simp: mask_cmp_nth symbolAccepts_def)
  have rhs: "list_all (\<lambda>(s, b). symbolAccepts s b) (zip syms ?f) =
        (\<forall>i<n. i < length syms \<longrightarrow> symbolAccepts (syms ! i) (?f ! i))"
    by (auto simp: list_all_length len)
  show ?thesis unfolding lhs eq rhs using pt by blast
qed

lemma addElsesp_chain:
  "addElsesp (length xs) (AstIf c [s] []) (elseChain (x # xs)) = elseChain (x # xs @ [(c, s)])"
proof (induction xs arbitrary: x)
  case Nil
  then show ?case by (cases x) simp
next
  case (Cons y ys)
  show ?case using Cons.IH[of y] by (cases x) simp
qed

lemma visit_UdpTableLine_chain:
  assumes o: "lineVals (ofieldp l) \<noteq> []"
    and a: "m_alwaysp st = Some (elseChain done)"
    and p: "m_lineStmtp st = (if done = [] then None else Some (length done - 1))"
  shows "\<exists>st'. visit_UdpTableLine st l = Inr st' \<and>
      m_alwaysp st' = Some (elseChain (done @ [lineIf (m_inputNum st) (m_ifieldVarp st) (m_ofieldVarp st) l])) \<and>
      m_lineStmtp st' = Some (length done) \<and>
      v3errors st' = v3errors st @ lineErrors (m_inputNum st) [l] \<and>
      m_inputNum st' = m_inputNum st \<and> m_outputNum st' = m_outputNum st \<and>
      m_ifieldVarp st' = m_ifieldVarp st \<and> m_ofieldVarp st' = m_ofieldVarp st \<and>
      m_deleteps st' = m_deleteps st"
proof (cases "done")
  case Nil
  with o a p show ?thesis
    by (cases "lineVals (ofieldp l)")
       (simp_all add: visit_UdpTableLine_def Let_def v3error_def lineIf_def lineErrors_def)
next
  case (Cons x xs)
  have "addElsesp (length xs) (AstIf c [s] []) (elseChain (x # xs)) = elseChain ((x # xs) @ [(c, s)])" for c s
    using addElsesp_chain[of xs c s x] by simp
  with Cons o a p show ?thesis
    by (cases "lineVals (ofieldp l)")
       (simp_all add: visit_UdpTableLine_def Let_def v3error_def lineIf_def lineErrors_def)
qed

lemma lineErrors_append: "lineErrors n (xs @ ys) = lineErrors n xs @ lineErrors n ys"
  by (simp add: lineErrors_def)

lemma iterateLines_chain:
  assumes "\<forall>l\<in>set ls. lineVals (ofieldp l) \<noteq> []"
    and "m_alwaysp st = Some (elseChain done)"
    and "m_lineStmtp st = (if done = [] then None else Some (length done - 1))"
  shows "\<exists>st'. iterateLines st ls = Inr st' \<and>
      m_alwaysp st' = Some (elseChain (done @ map (lineIf (m_inputNum st) (m_ifieldVarp st) (m_ofieldVarp st)) ls)) \<and>
      v3errors st' = v3errors st @ lineErrors (m_inputNum st) ls \<and>
      m_inputNum st' = m_inputNum st \<and> m_outputNum st' = m_outputNum st \<and>
      m_ifieldVarp st' = m_ifieldVarp st \<and> m_ofieldVarp st' = m_ofieldVarp st \<and>
      m_deleteps st' = m_deleteps st"
  using assms
proof (induction ls arbitrary: st "done")
  case Nil
  then show ?case by (simp add: lineErrors_def)
next
  case (Cons l ls)
  let ?x = "lineIf (m_inputNum st) (m_ifieldVarp st) (m_ofieldVarp st) l"
  from Cons.prems have o: "lineVals (ofieldp l) \<noteq> []" by simp
  from visit_UdpTableLine_chain[OF o Cons.prems(2) Cons.prems(3)]
  obtain st1 where s1: "visit_UdpTableLine st l = Inr st1"
    and a1: "m_alwaysp st1 = Some (elseChain (done @ [?x]))"
    and p1: "m_lineStmtp st1 = Some (length done)"
    and e1: "v3errors st1 = v3errors st @ lineErrors (m_inputNum st) [l]"
    and k1: "m_inputNum st1 = m_inputNum st" "m_outputNum st1 = m_outputNum st"
       "m_ifieldVarp st1 = m_ifieldVarp st" "m_ofieldVarp st1 = m_ofieldVarp st"
       "m_deleteps st1 = m_deleteps st"
    by blast
  have p1': "m_lineStmtp st1 = (if done @ [?x] = [] then None else Some (length (done @ [?x]) - 1))"
    using p1 by simp
  from Cons.prems have os: "\<forall>l\<in>set ls. lineVals (ofieldp l) \<noteq> []" by simp
  from Cons.IH[OF os a1 p1'] obtain st' where
    r: "iterateLines st1 ls = Inr st'"
    and a2: "m_alwaysp st' = Some (elseChain ((done @ [?x]) @ map (lineIf (m_inputNum st1) (m_ifieldVarp st1) (m_ofieldVarp st1)) ls))"
    and e2: "v3errors st' = v3errors st1 @ lineErrors (m_inputNum st1) ls"
    and k2: "m_inputNum st' = m_inputNum st1" "m_outputNum st' = m_outputNum st1"
       "m_ifieldVarp st' = m_ifieldVarp st1" "m_ofieldVarp st' = m_ofieldVarp st1"
       "m_deleteps st' = m_deleteps st1"
    by blast
  have le: "lineErrors (m_inputNum st) (l # ls) = lineErrors (m_inputNum st) [l] @ lineErrors (m_inputNum st) ls"
    using lineErrors_append[of "m_inputNum st" "[l]" ls] by simp
  show ?case
    using s1 r a2 e2 k2 k1 e1 le by simp
qed

subsection \<open>The result of a table visit\<close>

lemma validate_result:
  assumes "m_inputVars st \<noteq> []" "m_outputVars st \<noteq> []"
  shows "\<exists>st1. validate st = Inr st1 \<and>
     v3errors st1 = v3errors st @ validateErrors st \<and>
     m_lineStmtp st1 = None \<and>
     m_inputNum st1 = length (m_inputVars st) \<and>
     m_outputNum st1 = length (m_outputVars st) \<and>
     m_ofieldVarp st1 = Some (hd (m_outputVars st)) \<and>
     m_inputVars st1 = m_inputVars st \<and>
     m_deleteps st1 = m_deleteps st"
proof -
  obtain ofield os where o: "m_outputVars st = ofield # os"
    using assms(2) by (cases "m_outputVars st") auto
  show ?thesis
    using assms(1) o
    by (auto simp: validate_def validateErrors_def Let_def v3error_def
             split: option.splits AstNodeDType.splits bool.splits)
qed

lemma visit_UdpTable_result:
  assumes i: "m_inputVars st \<noteq> []" and o: "m_outputVars st \<noteq> []"
    and l: "\<forall>l\<in>set lines. lineVals (ofieldp l) \<noteq> []"
  shows "\<exists>st'. visit_UdpTable st prevs lines =
       Inr (st', addNextHere (Var (last (m_inputVars st)))
                   (Var (ifieldVar_of (length (m_inputVars st)))) prevs @
                 [Stmt (AstAssignW (AstVarRef (Some (ifieldVar_of (length (m_inputVars st)))) WRITE)
                                   (contactp_of (m_inputVars st))),
                  Stmt (AstAlways (elseChain (map
                     (lineIf (length (m_inputVars st))
                             (Some (ifieldVar_of (length (m_inputVars st))))
                             (Some (hd (m_outputVars st)))) lines)))]) \<and>
     v3errors st' = v3errors st @ validateErrors st @ lineErrors (length (m_inputVars st)) lines \<and>
     m_deleteps st' = m_deleteps st @ [AstUdpTable lines] \<and>
     m_ifieldVarp st' = Some (ifieldVar_of (length (m_inputVars st))) \<and>
     m_ofieldVarp st' = Some (hd (m_outputVars st)) \<and>
     m_inputNum st' = length (m_inputVars st)"
proof -
  let ?n = "length (m_inputVars st)"
  from validate_result[OF i o] obtain st1 where v: "validate st = Inr st1"
    and v1: "v3errors st1 = v3errors st @ validateErrors st" "m_lineStmtp st1 = None"
      "m_inputNum st1 = ?n" "m_ofieldVarp st1 = Some (hd (m_outputVars st))"
      "m_inputVars st1 = m_inputVars st" "m_deleteps st1 = m_deleteps st"
    by blast
  let ?st2 = "st1\<lparr>m_ifieldVarp := Some (ifieldVar_of ?n), m_alwaysp := Some []\<rparr>"
  have a: "m_alwaysp ?st2 = Some (elseChain [])" by simp
  have p: "m_lineStmtp ?st2 = (if ([]::(AstNodeExpr \<times> AstNodeStmt) list) = [] then None
                               else Some (length ([]::(AstNodeExpr \<times> AstNodeStmt) list) - 1))"
    using v1 by simp
  from iterateLines_chain[OF l a p] obtain st3 where r: "iterateLines ?st2 lines = Inr st3"
    and r1: "m_alwaysp st3 = Some (elseChain (map (lineIf ?n (Some (ifieldVar_of ?n))
                                  (Some (hd (m_outputVars st)))) lines))"
      "v3errors st3 = v3errors st @ validateErrors st @ lineErrors ?n lines"
      "m_inputNum st3 = ?n" "m_ifieldVarp st3 = Some (ifieldVar_of ?n)"
      "m_ofieldVarp st3 = Some (hd (m_outputVars st))" "m_deleteps st3 = m_deleteps st"
    using v1 by auto
  obtain iv ivs where ins: "m_inputVars st = iv # ivs"
    using i by (cases "m_inputVars st") auto
  have "visit_UdpTable st prevs lines =
       Inr (st3\<lparr>m_deleteps := m_deleteps st3 @ [AstUdpTable lines]\<rparr>,
            addNextHere (Var (last (m_inputVars st))) (Var (ifieldVar_of ?n)) prevs @
                 [Stmt (AstAssignW (AstVarRef (Some (ifieldVar_of ?n)) WRITE)
                                   (contactp_of (m_inputVars st))),
                  Stmt (AstAlways (elseChain (map
                     (lineIf ?n (Some (ifieldVar_of ?n)) (Some (hd (m_outputVars st)))) lines)))])"
    unfolding visit_UdpTable_def v
    using r r1(1) v1(3) v1(5) ins
    by (simp add: Let_def ifieldVar_of_def contactp_of_def)
  then show ?thesis using r1 by simp
qed

lemma iterateChildren_append:
  "iterateChildren st prevs (xs @ ys) =
     (case iterateChildren st prevs xs of
        Inl e \<Rightarrow> Inl e
      | Inr (st1, p1) \<Rightarrow> iterateChildren st1 p1 ys)"
  by (induction st prevs xs rule: iterateChildren.induct) (auto split: sum.splits)

lemma varsOf_append: "varsOf (xs @ ys) = varsOf xs @ varsOf ys"
  by (induction xs rule: varsOf.induct) simp_all

lemma noTable_append: "noTable (xs @ ys) = (noTable xs \<and> noTable ys)"
  by (simp add: noTable_def)

lemma addNextHere_found:
  "t \<notin> set a \<Longrightarrow> addNextHere t newp (a @ t # b) = a @ t # newp # b"
  by (induction a) auto

lemma inputPorts_last:
  assumes "isIO v" "isInput v" "inputPorts b = []"
  shows "inputPorts (a @ [Var v] @ b) = inputPorts a @ [v]"
  using assms by (simp add: inputPorts_def varsOf_append)

subsection \<open>What the synthesized nodes compute\<close>

lemma visit_UdpTable_synth:
  assumes "m_inputVars st \<noteq> []" "m_outputVars st \<noteq> []"
    and "\<forall>l\<in>set lines. lineVals (ofieldp l) \<noteq> []"
  shows "\<exists>st'. visit_UdpTable st prevs lines =
       Inr (st', addNextHere (Var (last (m_inputVars st))) (Var (ifieldVar_at st)) prevs @
                 [Stmt (ifieldStmtp_of st), Stmt (process_of st lines)]) \<and>
     newErrors st st' = validateErrors st @ lineErrors (length (m_inputVars st)) lines \<and>
     m_deleteps st' = m_deleteps st @ [AstUdpTable lines]"
  using visit_UdpTable_result[OF assms, of prevs]
  by (auto simp: ifieldVar_at_def ifieldStmtp_of_def process_of_def newErrors_def)

lemma elseChain_inj: "elseChain xs = elseChain ys \<Longrightarrow> xs = ys"
proof (induction xs arbitrary: ys)
  case Nil
  then show ?case by (cases ys) auto
next
  case (Cons x xs)
  then show ?case by (cases ys; cases x) auto
qed

lemma assigns_chain:
  assumes "length (env iv) = n"
  shows "concat (map (assigns env) (elseChain (map (lineIf n (Some iv) ov) lines))) =
     (case find (rowMatches (env iv)) lines of
        None \<Rightarrow> []
      | Some l \<Rightarrow> [(AstVarRef ov WRITE, AstConst (onum_of (hd (lineVals (ofieldp l)))))])"
proof (induction lines)
  case Nil
  then show ?case by simp
next
  case (Cons l ls)
  have c: "(True \<in> set (exprBits env (fst (lineIf n (Some iv) ov l)))) = rowMatches (env iv) l"
    using cond_matches[where env = env and iv = iv and n = n and syms = "lineVals (ifieldp l)"] assms
    by (simp add: lineIf_def rowMatches_def)
  have t: "snd (lineIf n (Some iv) ov l) =
        AstAssign (AstVarRef ov WRITE) (AstConst (onum_of (hd (lineVals (ofieldp l)))))"
    by (simp add: lineIf_def thenStmtp_of_def)
  obtain cnd thn where x: "lineIf n (Some iv) ov l = (cnd, thn)" by (cases "lineIf n (Some iv) ov l")
  show ?case using Cons.IH c t x by simp
qed

lemma exprBits_contactp_loop:
  "exprBits env (contactp_loop vs acc) = exprBits env acc @ concat (map env vs)"
  by (induction vs arbitrary: acc) simp_all

lemma exprBits_contactp_of:
  "ins \<noteq> [] \<Longrightarrow> exprBits env (contactp_of ins) = concat (map env ins)"
  by (cases ins) (simp_all add: contactp_of_def exprBits_contactp_loop)

lemma concat_scalar:
  "\<forall>v\<in>set vs. length (env v) = 1 \<Longrightarrow> concat (map env vs) = map (\<lambda>v. hd (env v)) vs"
proof (induction vs)
  case Nil
  then show ?case by simp
next
  case (Cons v vs)
  then have "length (env v) = 1" by simp
  then have "env v = [hd (env v)]" by (cases "env v") auto
  with Cons show ?case by simp
qed

lemma map2_conj_commute: "map2 (\<and>) xs ys = map2 (\<and>) ys xs"
  by (induction xs ys rule: list_induct2') auto

subsection \<open>Row compiler\<close>

text \<open>
  Claim C2. For a line with \<open>n\<close> input values, where the symbol of a value is the first
  character of its name: both numbers are \<open>n\<close> bits wide; bit \<open>i\<close> of the mask is 1 if
  and only if symbol \<open>i\<close> is \<open>0\<close> or \<open>1\<close>, and is 0 otherwise; bit \<open>i\<close> of the compare
  number is the value of symbol \<open>i\<close> when that mask bit is 1, and 0 otherwise.
\<close>

theorem mask_compare_bits:
  assumes "length syms = n" and "i < n"
  shows "length (maskNum_of n syms) = n \<and> length (cmpNum_of n syms) = n \<and>
     (maskNum_of n syms ! i = B1 \<longleftrightarrow> take 1 (syms ! i) = ''0'' \<or> take 1 (syms ! i) = ''1'') \<and>
     (maskNum_of n syms ! i = B1 \<or> maskNum_of n syms ! i = B0) \<and>
     cmpNum_of n syms ! i =
       (if maskNum_of n syms ! i = B1
        then (if take 1 (syms ! i) = ''1'' then B1 else B0)
        else B0)"
  using assms mask_cmp_nth[of i n syms] mask_cmp_length[of n syms] by auto

theorem mask_compare_bits_witness:
  "length [''0'', ''x'', ''1''] = (3::nat) \<and> (2::nat) < 3 \<and>
   maskNum_of 3 [''0'', ''x'', ''1''] ! 2 = B1 \<and>
   cmpNum_of 3 [''0'', ''x'', ''1''] ! 2 = B1"
  using mask_compare_bits [of "[''0'', ''x'', ''1'']" 3 2] by simp

text \<open>
  Claim C4. The visit of a line with an output value, in a state whose process holds the
  chain of the lines before it, adds one conditional to the chain. Its condition is the
  equality of the conjunction of mask and field variable with the compare number, whose
  value is that of (field AND mask) == compare; its only then statement assigns to the
  output variable the one-bit constant 0 for symbol \<open>0\<close>, 1 for symbol \<open>1\<close>, and X for
  any other symbol; it has no else statement. No output symbol is an error: the
  diagnostics the visit adds are those of the input count alone, so none when the line
  has \<open>m_inputNum\<close> input values.
\<close>

theorem row_conditional:
  assumes "lineVals (ofieldp l) = ovalp # orest"
    and "m_alwaysp st = Some (elseChain done)"
    and "m_lineStmtp st = (if done = [] then None else Some (length done - 1))"
  shows "\<exists>st'. visit_UdpTableLine st l = Inr st' \<and>
     v3errors st' = v3errors st @ lineErrors (m_inputNum st) [l] \<and>
     (length (lineVals (ifieldp l)) = m_inputNum st \<longrightarrow> v3errors st' = v3errors st) \<and>
     m_alwaysp st' =
       Some (elseChain (done @ [lineIf (m_inputNum st) (m_ifieldVarp st) (m_ofieldVarp st) l])) \<and>
     lineIf (m_inputNum st) (m_ifieldVarp st) (m_ofieldVarp st) l =
       (AstEq (AstAnd (AstConst (maskNum_of (m_inputNum st) (lineVals (ifieldp l))))
                      (AstVarRef (m_ifieldVarp st) READ))
              (AstConst (cmpNum_of (m_inputNum st) (lineVals (ifieldp l)))),
        AstAssign (AstVarRef (m_ofieldVarp st) WRITE)
                  (AstConst [if take 1 ovalp = ''0'' then B0
                             else if take 1 ovalp = ''1'' then B1 else BX])) \<and>
     exprBits env (fst (lineIf (m_inputNum st) (m_ifieldVarp st) (m_ofieldVarp st) l)) =
       [map2 (\<and>) (exprBits env (AstVarRef (m_ifieldVarp st) READ))
                  (exprBits env (AstConst (maskNum_of (m_inputNum st) (lineVals (ifieldp l))))) =
        exprBits env (AstConst (cmpNum_of (m_inputNum st) (lineVals (ifieldp l))))]"
proof -
  have o: "lineVals (ofieldp l) \<noteq> []" using assms(1) by simp
  have s: "lineIf (m_inputNum st) (m_ifieldVarp st) (m_ofieldVarp st) l =
       (AstEq (AstAnd (AstConst (maskNum_of (m_inputNum st) (lineVals (ifieldp l))))
                      (AstVarRef (m_ifieldVarp st) READ))
              (AstConst (cmpNum_of (m_inputNum st) (lineVals (ifieldp l)))),
        AstAssign (AstVarRef (m_ofieldVarp st) WRITE)
                  (AstConst [if take 1 ovalp = ''0'' then B0
                             else if take 1 ovalp = ''1'' then B1 else BX]))"
    using assms(1)
    by (simp add: lineIf_def condExprp_of_def thenStmtp_of_def onum_of_def Let_def
          setBit_def V3Number_new_def)
  have e: "exprBits env (fst (lineIf (m_inputNum st) (m_ifieldVarp st) (m_ofieldVarp st) l)) =
       [map2 (\<and>) (exprBits env (AstVarRef (m_ifieldVarp st) READ))
                  (exprBits env (AstConst (maskNum_of (m_inputNum st) (lineVals (ifieldp l))))) =
        exprBits env (AstConst (cmpNum_of (m_inputNum st) (lineVals (ifieldp l))))]"
    unfolding s using map2_conj_commute by simp
  from visit_UdpTableLine_chain[OF o assms(2) assms(3)] obtain st' where
    r: "visit_UdpTableLine st l = Inr st'"
    and a: "m_alwaysp st' =
       Some (elseChain (done @ [lineIf (m_inputNum st) (m_ifieldVarp st) (m_ofieldVarp st) l]))"
    and v: "v3errors st' = v3errors st @ lineErrors (m_inputNum st) [l]"
    by blast
  have n: "length (lineVals (ifieldp l)) = m_inputNum st \<longrightarrow> v3errors st' = v3errors st"
    using v by (simp add: lineErrors_def)
  from r v n a s e show ?thesis by blast
qed

theorem row_conditional_witness:
  "lineVals (ofieldp (tableLine [''0'', ''1''] ''x'')) = ''x'' # [] \<and>
   m_alwaysp ex_row_state = Some (elseChain []) \<and>
   m_lineStmtp ex_row_state =
     (if ([]::(AstNodeExpr \<times> AstNodeStmt) list) = [] then None
      else Some (length ([]::(AstNodeExpr \<times> AstNodeStmt) list) - 1)) \<and>
   length (lineVals (ifieldp (tableLine [''0'', ''1''] ''x''))) = m_inputNum ex_row_state \<and>
   v3errors ex_row_state = [] \<and>
   visit_UdpTableLine ex_row_state (tableLine [''0'', ''1''] ''x'') =
     Inr (ex_row_state\<lparr>m_lineStmtp := Some 0,
            m_alwaysp := Some [AstIf (AstEq (AstAnd (AstConst [B1, B1])
                                                    (AstVarRef (Some (ifieldVar_of 2)) READ))
                                            (AstConst [B0, B1]))
                                     [AstAssign (AstVarRef (Some ex_q) WRITE) (AstConst [BX])]
                                     []]\<rparr>) \<and>
   visit_UdpTableLine ex_row_state (tableLine [''0'', ''1''] ''1'') =
     Inr (ex_row_state\<lparr>m_lineStmtp := Some 0,
            m_alwaysp := Some [AstIf (AstEq (AstAnd (AstConst [B1, B1])
                                                    (AstVarRef (Some (ifieldVar_of 2)) READ))
                                            (AstConst [B0, B1]))
                                     [AstAssign (AstVarRef (Some ex_q) WRITE) (AstConst [B1])]
                                     []]\<rparr>)"
proof -
  have h1: "lineVals (ofieldp (tableLine [''0'', ''1''] ''x'')) = ''x'' # []"
    by (simp add: tableLine_def)
  have h2: "m_alwaysp ex_row_state = Some (elseChain [])"
    by (simp add: ex_row_state_def)
  have h3: "m_lineStmtp ex_row_state =
     (if ([]::(AstNodeExpr \<times> AstNodeStmt) list) = [] then None
      else Some (length ([]::(AstNodeExpr \<times> AstNodeStmt) list) - 1))"
    by (simp add: ex_row_state_def ex_state_def UdpVisitor_new_def)
  have n: "length (lineVals (ifieldp (tableLine [''0'', ''1''] ''x''))) = m_inputNum ex_row_state"
    by (simp add: tableLine_def ex_row_state_def)
  have v: "v3errors ex_row_state = []"
    by (simp add: ex_row_state_def ex_state_def UdpVisitor_new_def)
  have cx: "visit_UdpTableLine ex_row_state (tableLine [''0'', ''1''] ''x'') =
     Inr (ex_row_state\<lparr>m_lineStmtp := Some 0,
            m_alwaysp := Some [AstIf (AstEq (AstAnd (AstConst [B1, B1])
                                                    (AstVarRef (Some (ifieldVar_of 2)) READ))
                                            (AstConst [B0, B1]))
                                     [AstAssign (AstVarRef (Some ex_q) WRITE) (AstConst [BX])]
                                     []]\<rparr>)"
    by code_simp
  have c1: "visit_UdpTableLine ex_row_state (tableLine [''0'', ''1''] ''1'') =
     Inr (ex_row_state\<lparr>m_lineStmtp := Some 0,
            m_alwaysp := Some [AstIf (AstEq (AstAnd (AstConst [B1, B1])
                                                    (AstVarRef (Some (ifieldVar_of 2)) READ))
                                            (AstConst [B0, B1]))
                                     [AstAssign (AstVarRef (Some ex_q) WRITE) (AstConst [B1])]
                                     []]\<rparr>)"
    by code_simp
  show ?thesis
    using row_conditional [OF h1 h2 h3] h1 h2 h3 n v cx c1 by blast
qed

text \<open>
  Claim C9. When the number of input values of a line differs from \<open>m_inputNum\<close>, the
  visit reports the diagnostic carrying the line, the expected number and the actual
  number, and still adds the conditional of the line to the chain, so the process is not
  what it was before.
\<close>

theorem row_count_mismatch:
  assumes "length (lineVals (ifieldp l)) \<noteq> m_inputNum st"
    and "lineVals (ofieldp l) \<noteq> []"
    and "m_alwaysp st = Some (elseChain done)"
    and "m_lineStmtp st = (if done = [] then None else Some (length done - 1))"
  shows "\<exists>st'. visit_UdpTableLine st l = Inr st' \<and>
     v3errors st' =
       v3errors st @ [InputValError l (m_inputNum st) (length (lineVals (ifieldp l)))] \<and>
     m_alwaysp st' =
       Some (elseChain (done @ [lineIf (m_inputNum st) (m_ifieldVarp st) (m_ofieldVarp st) l])) \<and>
     m_alwaysp st' \<noteq> m_alwaysp st"
proof -
  from visit_UdpTableLine_chain[OF assms(2) assms(3) assms(4)] obtain st' where
    r: "visit_UdpTableLine st l = Inr st'"
    and a: "m_alwaysp st' =
       Some (elseChain (done @ [lineIf (m_inputNum st) (m_ifieldVarp st) (m_ofieldVarp st) l]))"
    and e: "v3errors st' = v3errors st @ lineErrors (m_inputNum st) [l]"
    by blast
  have "elseChain (done @ [x]) \<noteq> elseChain done" for x
    using elseChain_inj[of "done @ [x]" "done"] by auto
  with a assms(3) have "m_alwaysp st' \<noteq> m_alwaysp st" by simp
  with r a e assms(1) show ?thesis by (simp add: lineErrors_def)
qed

theorem row_count_mismatch_witness:
  "length (lineVals (ifieldp (tableLine [''1''] ''0''))) \<noteq> m_inputNum ex_row_state \<and>
   lineVals (ofieldp (tableLine [''1''] ''0'')) \<noteq> [] \<and>
   m_alwaysp ex_row_state = Some (elseChain []) \<and>
   m_lineStmtp ex_row_state =
     (if ([]::(AstNodeExpr \<times> AstNodeStmt) list) = [] then None
      else Some (length ([]::(AstNodeExpr \<times> AstNodeStmt) list) - 1)) \<and>
   visit_UdpTableLine ex_row_state (tableLine [''1''] ''0'') =
     Inr (ex_row_state\<lparr>m_lineStmtp := Some 0,
            m_alwaysp := Some [AstIf (AstEq (AstAnd (AstConst [B1, B0])
                                                    (AstVarRef (Some (ifieldVar_of 2)) READ))
                                            (AstConst [B1, B0]))
                                     [AstAssign (AstVarRef (Some ex_q) WRITE) (AstConst [B0])]
                                     []],
            v3errors := [InputValError (tableLine [''1''] ''0'') 2 1]\<rparr>)"
proof -
  have h1: "length (lineVals (ifieldp (tableLine [''1''] ''0''))) \<noteq> m_inputNum ex_row_state"
    by (simp add: tableLine_def ex_row_state_def)
  have h2: "lineVals (ofieldp (tableLine [''1''] ''0'')) \<noteq> []"
    by (simp add: tableLine_def)
  have h3: "m_alwaysp ex_row_state = Some (elseChain [])"
    by (simp add: ex_row_state_def)
  have h4: "m_lineStmtp ex_row_state =
     (if ([]::(AstNodeExpr \<times> AstNodeStmt) list) = [] then None
      else Some (length ([]::(AstNodeExpr \<times> AstNodeStmt) list) - 1))"
    by (simp add: ex_row_state_def ex_state_def UdpVisitor_new_def)
  have c: "visit_UdpTableLine ex_row_state (tableLine [''1''] ''0'') =
     Inr (ex_row_state\<lparr>m_lineStmtp := Some 0,
            m_alwaysp := Some [AstIf (AstEq (AstAnd (AstConst [B1, B0])
                                                    (AstVarRef (Some (ifieldVar_of 2)) READ))
                                            (AstConst [B1, B0]))
                                     [AstAssign (AstVarRef (Some ex_q) WRITE) (AstConst [B0])]
                                     []],
            v3errors := [InputValError (tableLine [''1''] ''0'') 2 1]\<rparr>)"
    by code_simp
  show ?thesis
    using row_count_mismatch [OF h1 h2 h3 h4] h1 h2 h3 h4 c by blast
qed

subsection \<open>Chain builder\<close>

text \<open>
  Claim C1. A table visit that does not read outside its vectors (at least one input and
  one output port classified, every line with an output value) ends with the process as
  last statement, and the statements of the process are the chain of the lines in
  declaration order: the conditional of the first line is the only statement, the
  conditional of each further line is the only else statement of the one before, and the
  last has no else statement. Run on a field value of \<open>n\<close> bits, the process performs
  the assignment of the first line that the value matches, and no assignment when the
  value matches no line.
\<close>

theorem chain_first_match:
  assumes "m_inputVars st \<noteq> []" and "m_outputVars st \<noteq> []"
    and "\<forall>l\<in>set lines. lineVals (ofieldp l) \<noteq> []"
    and "length (env (ifieldVar_at st)) = length (m_inputVars st)"
  shows "\<exists>st' prevs'.
     visit_UdpTable st prevs lines = Inr (st', prevs' @ [Stmt (process_of st lines)]) \<and>
     process_of st lines =
       AstAlways (elseChain (map (lineIf (length (m_inputVars st)) (Some (ifieldVar_at st))
                                         (Some (hd (m_outputVars st)))) lines)) \<and>
     assigns env (process_of st lines) =
       (case find (rowMatches (env (ifieldVar_at st))) lines of
          None \<Rightarrow> []
        | Some l \<Rightarrow> [(AstVarRef (Some (hd (m_outputVars st))) WRITE,
                      AstConst (onum_of (hd (lineVals (ofieldp l)))))])"
proof -
  from visit_UdpTable_synth[OF assms(1) assms(2) assms(3), of prevs] obtain st' where
    r: "visit_UdpTable st prevs lines =
       Inr (st', addNextHere (Var (last (m_inputVars st))) (Var (ifieldVar_at st)) prevs @
                 [Stmt (ifieldStmtp_of st), Stmt (process_of st lines)])"
    by blast
  have r': "visit_UdpTable st prevs lines =
       Inr (st', (addNextHere (Var (last (m_inputVars st))) (Var (ifieldVar_at st)) prevs @
                 [Stmt (ifieldStmtp_of st)]) @ [Stmt (process_of st lines)])"
    using r by simp
  have a: "assigns env (process_of st lines) =
       (case find (rowMatches (env (ifieldVar_at st))) lines of
          None \<Rightarrow> []
        | Some l \<Rightarrow> [(AstVarRef (Some (hd (m_outputVars st))) WRITE,
                      AstConst (onum_of (hd (lineVals (ofieldp l)))))])"
    using assigns_chain[where env = env and iv = "ifieldVar_at st"
            and n = "length (m_inputVars st)" and ov = "Some (hd (m_outputVars st))"
            and lines = lines] assms(4)
    by (simp add: process_of_def)
  show ?thesis using r' a process_of_def by blast
qed

theorem chain_first_match_witness:
  "m_inputVars ex_state \<noteq> [] \<and> m_outputVars ex_state \<noteq> [] \<and>
   list_all (\<lambda>l. lineVals (ofieldp l) \<noteq> []) ex_lines \<and>
   length (ex_env (ifieldVar_at ex_state)) = length (m_inputVars ex_state) \<and>
   rowMatches (ex_env (ifieldVar_at ex_state)) (ex_lines ! 0) \<and>
   rowMatches (ex_env (ifieldVar_at ex_state)) (ex_lines ! 2) \<and>
   assigns ex_env (process_of ex_state ex_lines) =
     [(AstVarRef (Some ex_q) WRITE, AstConst [B1])]"
proof -
  have h1: "m_inputVars ex_state \<noteq> []" by (simp add: ex_state_def)
  have h2: "m_outputVars ex_state \<noteq> []" by (simp add: ex_state_def)
  have h3: "\<forall>l\<in>set ex_lines. lineVals (ofieldp l) \<noteq> []"
    by (simp add: ex_lines_def tableLine_def)
  have h3': "list_all (\<lambda>l. lineVals (ofieldp l) \<noteq> []) ex_lines"
    using h3 by (simp add: list_all_iff)
  have h4: "length (ex_env (ifieldVar_at ex_state)) = length (m_inputVars ex_state)"
    by code_simp
  have m: "rowMatches (ex_env (ifieldVar_at ex_state)) (ex_lines ! 0)"
    "rowMatches (ex_env (ifieldVar_at ex_state)) (ex_lines ! 2)"
    by code_simp+
  have c: "(case find (rowMatches (ex_env (ifieldVar_at ex_state))) ex_lines of
          None \<Rightarrow> []
        | Some l \<Rightarrow> [(AstVarRef (Some (hd (m_outputVars ex_state))) WRITE,
                      AstConst (onum_of (hd (lineVals (ofieldp l)))))]) =
      [(AstVarRef (Some ex_q) WRITE, AstConst [B1])]"
    by code_simp
  from chain_first_match [where st = ex_state and lines = ex_lines and env = ex_env
         and prevs = "[]", OF h1 h2 h3 h4]
  have "assigns ex_env (process_of ex_state ex_lines) =
      [(AstVarRef (Some ex_q) WRITE, AstConst [B1])]"
    unfolding c by blast
  with h1 h2 h3' h4 m show ?thesis by blast
qed

subsection \<open>Field synthesizer\<close>

text \<open>
  Claim C3. With \<open>n \<ge> 1\<close> input ports classified (and a visit that does not read outside
  its vectors), the table visit synthesizes the assignment of the concatenation of the
  input ports to the new variable, whose type is the bit type of width \<open>n\<close>. When each
  input port carries one bit, the bits of the concatenation are the values of the input
  ports in declaration order: bit 0 is the first input port and bit \<open>n - 1\<close> the last.
\<close>

theorem field_concat_layout:
  assumes "m_inputVars st \<noteq> []" and "m_outputVars st \<noteq> []"
    and "\<forall>l\<in>set lines. lineVals (ofieldp l) \<noteq> []"
    and "\<forall>v\<in>set (m_inputVars st). length (env v) = 1"
  shows "\<exists>st' prevs' alwaysp.
     visit_UdpTable st prevs lines =
       Inr (st', prevs' @
              [Stmt (AstAssignW (AstVarRef (Some (ifieldVar_at st)) WRITE)
                                (contactp_of (m_inputVars st))), alwaysp]) \<and>
     dtypep (ifieldVar_at st) = Some (AstBasicDType False (length (m_inputVars st)) NOSIGN) \<and>
     exprBits env (contactp_of (m_inputVars st)) = map (\<lambda>v. hd (env v)) (m_inputVars st) \<and>
     exprBits env (contactp_of (m_inputVars st)) ! 0 = hd (env (hd (m_inputVars st))) \<and>
     exprBits env (contactp_of (m_inputVars st)) ! (length (m_inputVars st) - 1) =
       hd (env (last (m_inputVars st)))"
proof -
  from visit_UdpTable_synth[OF assms(1) assms(2) assms(3), of prevs] obtain st' where
    r: "visit_UdpTable st prevs lines =
       Inr (st', addNextHere (Var (last (m_inputVars st))) (Var (ifieldVar_at st)) prevs @
                 [Stmt (AstAssignW (AstVarRef (Some (ifieldVar_at st)) WRITE)
                                (contactp_of (m_inputVars st))), Stmt (process_of st lines)])"
    unfolding ifieldStmtp_of_def by blast
  have d: "dtypep (ifieldVar_at st) = Some (AstBasicDType False (length (m_inputVars st)) NOSIGN)"
    by (simp add: ifieldVar_at_def ifieldVar_of_def AstVar_new_def findBitDType_def)
  have e: "exprBits env (contactp_of (m_inputVars st)) = map (\<lambda>v. hd (env v)) (m_inputVars st)"
    using exprBits_contactp_of[OF assms(1)] concat_scalar[OF assms(4)] by simp
  have e0: "exprBits env (contactp_of (m_inputVars st)) ! 0 = hd (env (hd (m_inputVars st)))"
    unfolding e using assms(1) by (simp add: hd_conv_nth)
  have el: "exprBits env (contactp_of (m_inputVars st)) ! (length (m_inputVars st) - 1) =
       hd (env (last (m_inputVars st)))"
    unfolding e using assms(1) by (simp add: last_conv_nth)
  show ?thesis using r d e e0 el by blast
qed

theorem field_concat_layout_witness:
  "m_inputVars ex_state \<noteq> [] \<and> m_outputVars ex_state \<noteq> [] \<and>
   list_all (\<lambda>l. lineVals (ofieldp l) \<noteq> []) ex_lines \<and>
   list_all (\<lambda>v. length (ex_env v) = 1) (m_inputVars ex_state) \<and>
   contactp_of (m_inputVars ex_state) =
     AstConcat (AstVarRef (Some ex_b) READ) (AstVarRef (Some ex_a) READ) \<and>
   exprBits ex_env (contactp_of (m_inputVars ex_state)) = [False, True]"
proof -
  have h1: "m_inputVars ex_state \<noteq> []" by (simp add: ex_state_def)
  have h2: "m_outputVars ex_state \<noteq> []" by (simp add: ex_state_def)
  have h3: "\<forall>l\<in>set ex_lines. lineVals (ofieldp l) \<noteq> []"
    by (simp add: ex_lines_def tableLine_def)
  have h3': "list_all (\<lambda>l. lineVals (ofieldp l) \<noteq> []) ex_lines"
    using h3 by (simp add: list_all_iff)
  have h4: "\<forall>v\<in>set (m_inputVars ex_state). length (ex_env v) = 1"
    by code_simp
  have h4': "list_all (\<lambda>v. length (ex_env v) = 1) (m_inputVars ex_state)"
    using h4 by (simp add: list_all_iff)
  have c: "contactp_of (m_inputVars ex_state) =
     AstConcat (AstVarRef (Some ex_b) READ) (AstVarRef (Some ex_a) READ)"
    by (simp add: ex_state_def contactp_of_def)
  have m: "map (\<lambda>v. hd (ex_env v)) (m_inputVars ex_state) = [False, True]"
    by code_simp
  from field_concat_layout [where st = ex_state and lines = ex_lines and env = ex_env
         and prevs = "[]", OF h1 h2 h3 h4]
  have "exprBits ex_env (contactp_of (m_inputVars ex_state)) = [False, True]"
    unfolding m by blast
  with h1 h2 h3' h4' c show ?thesis by blast
qed

subsection \<open>Table validator\<close>

lemma lineErrors_not_sequential: "\<not> list_ex isSequentialError (lineErrors n ls)"
  by (simp add: lineErrors_def list_ex_iff)

lemma validateErrors_sequential:
  "list_ex isSequentialError (validateErrors st) = isLogicValued (hd (m_outputVars st))"
  by (auto simp: validateErrors_def isLogicValued_def
           split: option.splits AstNodeDType.splits bool.splits)

text \<open>
  Claim C8. Among the diagnostics of a table visit there is the one for a sequential
  primitive if and only if the type of the output port the visit resolves, the first of
  the output list, is a basic type that answers \<open>isLogic()\<close>.
\<close>

theorem sequential_diagnostic:
  assumes "m_inputVars st \<noteq> []" and "m_outputVars st \<noteq> []"
    and "\<forall>l\<in>set lines. lineVals (ofieldp l) \<noteq> []"
  shows "\<exists>st' prevs'.
     visit_UdpTable st prevs lines = Inr (st', prevs') \<and>
     list_ex isSequentialError (newErrors st st') = isLogicValued (hd (m_outputVars st))"
proof -
  from visit_UdpTable_synth[OF assms, of prevs] obtain st' prevs' where
    r: "visit_UdpTable st prevs lines = Inr (st', prevs')"
    and e: "newErrors st st' = validateErrors st @ lineErrors (length (m_inputVars st)) lines"
    by blast
  have "list_ex isSequentialError (newErrors st st') = isLogicValued (hd (m_outputVars st))"
    unfolding e using lineErrors_not_sequential validateErrors_sequential by simp
  with r show ?thesis by blast
qed

theorem sequential_diagnostic_witness:
  "m_inputVars (ex_state\<lparr>m_outputVars := [ex_r]\<rparr>) \<noteq> [] \<and>
   m_outputVars (ex_state\<lparr>m_outputVars := [ex_r]\<rparr>) \<noteq> [] \<and>
   list_all (\<lambda>l. lineVals (ofieldp l) \<noteq> []) ex_lines \<and>
   isLogicValued (hd (m_outputVars (ex_state\<lparr>m_outputVars := [ex_r]\<rparr>))) \<and>
   (case visit_UdpTable (ex_state\<lparr>m_outputVars := [ex_r]\<rparr>) [] ex_lines of
      Inl e \<Rightarrow> False
    | Inr (st', prevs') \<Rightarrow>
        newErrors (ex_state\<lparr>m_outputVars := [ex_r]\<rparr>) st' =
          [SequentialError (AstBasicDType True 1 NOSIGN)]) \<and>
   (\<exists>st' prevs'.
     visit_UdpTable (ex_state\<lparr>m_outputVars := [ex_r]\<rparr>) [] ex_lines = Inr (st', prevs') \<and>
     list_ex isSequentialError (newErrors (ex_state\<lparr>m_outputVars := [ex_r]\<rparr>) st'))"
proof -
  have h1: "m_inputVars (ex_state\<lparr>m_outputVars := [ex_r]\<rparr>) \<noteq> []" by (simp add: ex_state_def)
  have h2: "m_outputVars (ex_state\<lparr>m_outputVars := [ex_r]\<rparr>) \<noteq> []" by simp
  have h3: "\<forall>l\<in>set ex_lines. lineVals (ofieldp l) \<noteq> []"
    by (simp add: ex_lines_def tableLine_def)
  have h3': "list_all (\<lambda>l. lineVals (ofieldp l) \<noteq> []) ex_lines"
    using h3 by (simp add: list_all_iff)
  have lg: "isLogicValued (hd (m_outputVars (ex_state\<lparr>m_outputVars := [ex_r]\<rparr>)))"
    by (simp add: isLogicValued_def ex_r_def port_def)
  have c: "(case visit_UdpTable (ex_state\<lparr>m_outputVars := [ex_r]\<rparr>) [] ex_lines of
      Inl e \<Rightarrow> False
    | Inr (st', prevs') \<Rightarrow>
        newErrors (ex_state\<lparr>m_outputVars := [ex_r]\<rparr>) st' =
          [SequentialError (AstBasicDType True 1 NOSIGN)])"
    by code_simp
  show ?thesis
    using sequential_diagnostic [OF h1 h2 h3, of "[]"] h1 h2 h3' lg c by blast
qed

text \<open>The output count check. With two or more output ports (and an input port, which
  line 102 reads) the diagnostic is reported on the last of them and the visit goes on
  with the first; with none, \<open>back()\<close> is read on an empty vector.\<close>

lemma no_output_out_of_range:
  "m_outputVars st = [] \<Longrightarrow> visit_UdpTable st prevs lines = Inl OutOfRange"
  by (simp add: visit_UdpTable_def validate_def Let_def)

lemma many_outputs_reported:
  assumes "m_inputVars st \<noteq> []" and "2 \<le> length (m_outputVars st)"
    and "\<forall>l\<in>set lines. lineVals (ofieldp l) \<noteq> []"
  shows "\<exists>st' prevs'.
     visit_UdpTable st prevs lines = Inr (st', prevs') \<and>
     OutputPortsError (last (m_outputVars st)) (length (m_outputVars st)) \<in> set (newErrors st st') \<and>
     m_ofieldVarp st' = Some (hd (m_outputVars st))"
proof -
  have o: "m_outputVars st \<noteq> []" using assms(2) by auto
  from visit_UdpTable_result[OF assms(1) o assms(3), of prevs] obtain st' prevs' where
    r: "visit_UdpTable st prevs lines = Inr (st', prevs')"
    and e: "v3errors st' = v3errors st @ validateErrors st @ lineErrors (length (m_inputVars st)) lines"
    and f: "m_ofieldVarp st' = Some (hd (m_outputVars st))"
    by blast
  have "OutputPortsError (last (m_outputVars st)) (length (m_outputVars st)) \<in> set (validateErrors st)"
    using assms(2) by (simp add: validateErrors_def)
  with e have "OutputPortsError (last (m_outputVars st)) (length (m_outputVars st)) \<in> set (newErrors st st')"
    by (simp add: newErrors_def)
  with r f show ?thesis by blast
qed

text \<open>
  Claim C5. For a primitive with one input port, no output port and a table, the output
  count is not 1, and the visit reads \<open>m_outputVars.back()\<close> of the empty vector to
  report the diagnostic: no diagnostic is reported and no tree is returned.
\<close>

theorem zero_outputs_out_of_range:
  "visit_Primitive UdpVisitor_new ex_noOutput = Inl OutOfRange"
  by code_simp

subsection \<open>The tree after the visit of a primitive\<close>

text \<open>
  Claim C6. Let the statements of a primitive be \<open>a\<close>, the input port \<open>v\<close>, \<open>b\<close>, one
  table, \<open>post\<close>, where \<open>b\<close> holds no input port, so that \<open>v\<close> is the last input port
  declared before the table, and where \<open>v\<close> is not also a node of \<open>a\<close>. After the visit
  the new field variable stands right after \<open>v\<close>, the field assignment followed by the
  process stands where the table stood, and the table is on the list of nodes to delete.
\<close>

theorem table_replaced:
  assumes nt: "noTable a" "noTable b" "noTable post"
    and v: "isIO v" "isInput v" and b: "inputPorts b = []"
    and once: "Var v \<notin> set a"
    and out: "outputPorts (a @ b) \<noteq> []"
    and l: "\<forall>l\<in>set lines. lineVals (ofieldp l) \<noteq> []"
  shows "\<exists>st'. visit_Primitive st
            \<lparr>prim_name = nm, stmtsp = a @ [Var v] @ b @ [AstUdpTable lines] @ post\<rparr> =
          Inr (st',
            \<lparr>prim_name = nm,
             stmtsp = a @ [Var v, Var (ifieldVar_of (length (inputPorts a) + 1))] @ b @
               [Stmt (AstAssignW
                        (AstVarRef (Some (ifieldVar_of (length (inputPorts a) + 1))) WRITE)
                        (contactp_of (inputPorts a @ [v]))),
                Stmt (AstAlways (elseChain (map
                        (lineIf (length (inputPorts a) + 1)
                                (Some (ifieldVar_of (length (inputPorts a) + 1)))
                                (Some (hd (outputPorts (a @ b))))) lines)))] @ post\<rparr>) \<and>
          m_deleteps st' = m_deleteps st @ [AstUdpTable lines]"
proof -
  define pre where "pre = a @ [Var v] @ b"
  define n where "n = length (inputPorts a) + 1"
  define ifieldStmtp where "ifieldStmtp =
    Stmt (AstAssignW (AstVarRef (Some (ifieldVar_of n)) WRITE) (contactp_of (inputPorts a @ [v])))"
  define alwaysp where "alwaysp =
    Stmt (AstAlways (elseChain (map
       (lineIf n (Some (ifieldVar_of n)) (Some (hd (outputPorts (a @ b))))) lines)))"
  let ?st0 = "st\<lparr>m_primp := Some nm, m_isFirstOutput := False,
                 m_inputVars := [], m_outputVars := []\<rparr>"
  define st1 where "st1 = ?st0\<lparr>m_inputVars := inputPorts pre, m_outputVars := outputPorts pre,
                   m_isFirstOutput := firstIsOutput pre\<rparr>"
  have ntpre: "noTable pre" using nt by (simp add: noTable_def pre_def)
  have p0: "m_primp ?st0 \<noteq> None" by simp
  have pre: "iterateChildren ?st0 [] pre = Inr (st1, pre)"
    using iterateChildren_noTable[OF ntpre p0, of "[]"] by (simp add: st1_def)
  have ins: "m_inputVars st1 = inputPorts a @ [v]"
    using inputPorts_last[OF v b, of a] by (simp add: st1_def pre_def)
  have outs: "m_outputVars st1 = outputPorts (a @ b)"
    using v by (simp add: st1_def pre_def outputPorts_def varsOf_append)
  have i1: "m_inputVars st1 \<noteq> []" using ins by simp
  have o1: "m_outputVars st1 \<noteq> []" using outs out by simp
  have an: "addNextHere (Var v) newp pre = a @ [Var v, newp] @ b" for newp
    using addNextHere_found[OF once, of newp b] by (simp add: pre_def)
  define new where "new = a @ [Var v, Var (ifieldVar_of n)] @ b @ [ifieldStmtp, alwaysp]"
  from visit_UdpTable_result[OF i1 o1 l, of pre] obtain st2 where
    t: "visit_UdpTable st1 pre lines = Inr (st2, new)"
    and d: "m_deleteps st2 = m_deleteps st1 @ [AstUdpTable lines]"
    unfolding ins outs new_def ifieldStmtp_def alwaysp_def
    by (auto simp: an n_def)
  have k: "m_primp st2 = m_primp st1"
    using visit_UdpTable_keeps[OF t] by simp
  then have p2: "m_primp st2 \<noteq> None" by (simp add: st1_def)
  note post = iterateChildren_noTable[OF nt(3) p2, of new]
  have "iterateChildren ?st0 [] (pre @ [AstUdpTable lines] @ post) =
      Inr (st2\<lparr>m_inputVars := m_inputVars st2 @ inputPorts post,
             m_outputVars := m_outputVars st2 @ outputPorts post,
             m_isFirstOutput := (m_isFirstOutput st2 \<or>
                (m_inputVars st2 = [] \<and> m_outputVars st2 = [] \<and> firstIsOutput post))\<rparr>,
          new @ post)"
    unfolding iterateChildren_append pre
    by (simp add: t post)
  then have "\<exists>st'. visit_Primitive st \<lparr>prim_name = nm, stmtsp = pre @ [AstUdpTable lines] @ post\<rparr> =
          Inr (st', \<lparr>prim_name = nm, stmtsp = new @ post\<rparr>) \<and>
          m_deleteps st' = m_deleteps st @ [AstUdpTable lines]"
    using d by (simp add: visit_Primitive_def Let_def st1_def)
  then show ?thesis
    by (simp add: pre_def new_def ifieldStmtp_def alwaysp_def n_def)
qed

theorem table_replaced_witness:
  "noTable [Var ex_q, Var ex_a] \<and> noTable [] \<and> noTable [] \<and>
   isIO ex_b \<and> isInput ex_b \<and> inputPorts [] = [] \<and>
   Var ex_b \<notin> set [Var ex_q, Var ex_a] \<and>
   outputPorts ([Var ex_q, Var ex_a] @ []) \<noteq> [] \<and>
   list_all (\<lambda>l. lineVals (ofieldp l) \<noteq> []) ex_lines \<and>
   (case visit_Primitive UdpVisitor_new ex_udp of
      Inl e \<Rightarrow> False
    | Inr (st', p') \<Rightarrow>
        take 4 (stmtsp p') = [Var ex_q, Var ex_a, Var ex_b, Var (ifieldVar_of 2)] \<and>
        length (stmtsp p') = 6 \<and>
        m_deleteps st' = [AstUdpTable ex_lines]) \<and>
   (\<exists>st'. visit_Primitive UdpVisitor_new
            \<lparr>prim_name = ''p'',
             stmtsp = [Var ex_q, Var ex_a] @ [Var ex_b] @ [] @ [AstUdpTable ex_lines] @ []\<rparr> =
          Inr (st',
            \<lparr>prim_name = ''p'',
             stmtsp = [Var ex_q, Var ex_a] @
               [Var ex_b, Var (ifieldVar_of (length (inputPorts [Var ex_q, Var ex_a]) + 1))] @ [] @
               [Stmt (AstAssignW
                        (AstVarRef (Some (ifieldVar_of (length (inputPorts [Var ex_q, Var ex_a]) + 1))) WRITE)
                        (contactp_of (inputPorts [Var ex_q, Var ex_a] @ [ex_b]))),
                Stmt (AstAlways (elseChain (map
                        (lineIf (length (inputPorts [Var ex_q, Var ex_a]) + 1)
                                (Some (ifieldVar_of (length (inputPorts [Var ex_q, Var ex_a]) + 1)))
                                (Some (hd (outputPorts ([Var ex_q, Var ex_a] @ []))))) ex_lines)))] @ []\<rparr>) \<and>
          m_deleteps st' = m_deleteps UdpVisitor_new @ [AstUdpTable ex_lines])"
proof -
  have n1: "noTable [Var ex_q, Var ex_a]" and n2: "noTable []"
    by (simp_all add: noTable_def)
  have v1: "isIO ex_b" and v2: "isInput ex_b" by (simp_all add: ex_b_def port_def)
  have b: "inputPorts [] = []" by (simp add: inputPorts_def)
  have once: "Var ex_b \<notin> set [Var ex_q, Var ex_a]"
    by (simp add: ex_a_def ex_b_def ex_q_def port_def)
  have out: "outputPorts ([Var ex_q, Var ex_a] @ []) \<noteq> []"
    by (simp add: outputPorts_def ex_q_def port_def)
  have l: "\<forall>l\<in>set ex_lines. lineVals (ofieldp l) \<noteq> []"
    by (simp add: ex_lines_def tableLine_def)
  have l': "list_all (\<lambda>l. lineVals (ofieldp l) \<noteq> []) ex_lines"
    using l by (simp add: list_all_iff)
  have c: "(case visit_Primitive UdpVisitor_new ex_udp of
      Inl e \<Rightarrow> False
    | Inr (st', p') \<Rightarrow>
        take 4 (stmtsp p') = [Var ex_q, Var ex_a, Var ex_b, Var (ifieldVar_of 2)] \<and>
        length (stmtsp p') = 6 \<and>
        m_deleteps st' = [AstUdpTable ex_lines])"
    by code_simp
  show ?thesis
    using table_replaced [where st = UdpVisitor_new and nm = "''p''", OF n1 n2 n2 v1 v2 b once out l]
      n1 n2 v1 v2 b once out l' c
    by blast
qed

end
